theory Spec2Isabelle
  imports Complex_Main "HOL-Library.AList"
begin

section \<open>Python values\<close>

text \<open>
  Exceptions are values. Every \<open>raise\<close>, failing \<open>assert\<close>, out-of-range index and
  missing key of the modelled functions is a branch returning \<open>Inl\<close> of one of these.
  Floats (budgets, losses, timestamps) are modelled as \<open>real\<close>: rounding, NaN and
  infinities of IEEE arithmetic are outside the model. Python's unbounded \<open>int\<close> is
  \<open>int\<close>. A \<open>dict\<close> is an association list in insertion order, updated with
  \<open>AList.update\<close> (replace in place, or append a new key at the end), read with
  \<open>map_of\<close>.
\<close>

datatype py_error =
  RuntimeError | AssertionError | IndexError | KeyError
  | ValueError | TypeError | AttributeError | ZeroDivisionError

definition py_index :: "'a list \<Rightarrow> nat \<Rightarrow> py_error + 'a" where
  "py_index xs i = (if i < length xs then Inr (xs ! i) else Inl IndexError)"

section \<open>dswizard/core/model.py\<close>

subsection \<open>CandidateId\<close>

datatype CandidateId = CandidateId (id_iteration: int) (id_structure: int) (id_config: int)

definition new_CandidateId :: "int \<Rightarrow> int \<Rightarrow> CandidateId" where
  \<comment> \<open>the constructor called without \<open>config\<close>, which defaults to \<open>-1\<close>\<close>
  "new_CandidateId it st = CandidateId it st (- 1)"

definition as_tuple :: "CandidateId \<Rightarrow> int \<times> int \<times> int" where
  "as_tuple c = (id_iteration c, id_structure c, id_config c)"

definition with_config :: "CandidateId \<Rightarrow> int \<Rightarrow> CandidateId" where
  "with_config c i = CandidateId (id_iteration c) (id_structure c) i"

definition without_config :: "CandidateId \<Rightarrow> CandidateId" where
  "without_config c = new_CandidateId (id_iteration c) (id_structure c)"

definition tuple_less :: "int \<times> int \<times> int \<Rightarrow> int \<times> int \<times> int \<Rightarrow> bool" where
  \<comment> \<open>Python's lexicographic \<open><\<close> on tuples of ints\<close>
  "tuple_less x y =
     (case (x, y) of ((a, b, c), (a', b', c')) \<Rightarrow>
        a < a' \<or> (a = a' \<and> (b < b' \<or> (b = b' \<and> c < c'))))"

definition cid_eq :: "CandidateId \<Rightarrow> CandidateId \<Rightarrow> bool" where
  \<comment> \<open>\<open>__eq__\<close>\<close>
  "cid_eq c d = (as_tuple c = as_tuple d)"

definition cid_less :: "CandidateId \<Rightarrow> CandidateId \<Rightarrow> bool" where
  \<comment> \<open>\<open>__lt__\<close>\<close>
  "cid_less c d = tuple_less (as_tuple c) (as_tuple d)"

subsection \<open>Result and CandidateStructure\<close>

datatype StatusType = SUCCESS | TIMEOUT | CRASHED_RUN | ABORT | MEMOUT | CAPPED

text \<open>
  Of a \<open>Result\<close> the scheduler reads the status and the loss; the configuration, the
  runtime breakdown and the partial configurations are payload it never inspects and
  are left out.
\<close>

record Result =
  res_status :: "StatusType option"
  loss :: "real option"

text \<open>
  The lifecycle status of a candidate is a string constant in the source; the six
  constants that the scheduler writes or tests are the constructors here.
\<close>

datatype Status = QUEUED | RUNNING | REVIEW | TERMINATED | CRASHED | COMPLETED

text \<open>
  \<open>cid\<close> is the attribute initialised by the constructor, \<open>cs_id\<close> the attribute
  \<open>id\<close> that the bracket assigns when it creates a candidate. The search space,
  the pipeline and \<open>model_based_pick\<close> are opaque to the scheduler and left out.
\<close>

record CandidateStructure =
  budget :: real
  timeout :: "real option"
  cid :: "CandidateId option"
  cs_id :: "CandidateId option"
  status :: Status
  results :: "(real \<times> Result list) list"
  timestamps :: "(string \<times> real) list"

definition new_CandidateStructure :: "real \<Rightarrow> real option \<Rightarrow> CandidateStructure" where
  "new_CandidateStructure b t =
     \<lparr>budget = b, timeout = t, cid = None, cs_id = None, status = QUEUED,
      results = [], timestamps = []\<rparr>"

fun min_by_loss :: "Result \<Rightarrow> Result list \<Rightarrow> py_error + Result" where
  \<comment> \<open>\<open>min(..., key=lambda res: res.loss)\<close>: the first minimal element; comparing
      \<open>None\<close> raises\<close>
  "min_by_loss best [] = Inr best"
| "min_by_loss best (r # rs) =
     (case (loss r, loss best) of
        (Some x, Some y) \<Rightarrow> min_by_loss (if x < y then r else best) rs
      | _ \<Rightarrow> Inl TypeError)"

definition get_incumbent :: "CandidateStructure \<Rightarrow> real option \<Rightarrow> py_error + Result" where
  "get_incumbent cs bo =
     (case (case bo of
              None \<Rightarrow> (case map fst (results cs) of
                          [] \<Rightarrow> Inl ValueError
                        | k # ks \<Rightarrow> Inr (fold max ks k))
            | Some b \<Rightarrow> Inr b) of
        Inl e \<Rightarrow> Inl e
      | Inr b \<Rightarrow>
          (case map_of (results cs) b of
             None \<Rightarrow> Inl KeyError
           | Some [] \<Rightarrow> Inl ValueError
           | Some (r # rs) \<Rightarrow> min_by_loss r rs))"

definition add_result :: "CandidateStructure \<Rightarrow> Result \<Rightarrow> real option \<Rightarrow> CandidateStructure" where
  \<comment> \<open>\<open>self.results.setdefault(budget, []).append(result)\<close>\<close>
  "add_result cs r bo =
     (let b = (case bo of None \<Rightarrow> budget cs | Some b' \<Rightarrow> b');
          old = (case map_of (results cs) b of None \<Rightarrow> [] | Some rs \<Rightarrow> rs)
      in cs\<lparr>results := AList.update b (old @ [r]) (results cs)\<rparr>)"

section \<open>dswizard/core/base_iteration.py\<close>

text \<open>
  Candidates are objects that the bracket, the orchestrator and the completion
  callbacks share by reference, so they live in a store: an address is a reference, the
  store maps every address to the object's current fields. The bracket's \<open>data\<close> dict
  maps a CandidateId to a reference.
\<close>

type_synonym addr = nat
type_synonym store = "addr \<Rightarrow> CandidateStructure"

record BaseIteration =
  data :: "(CandidateId \<times> addr) list"
  is_finished :: bool
  iteration :: int
  stage :: nat
  budgets :: "real list"
  it_timeout :: "real option"
  num_candidates :: "int list"
  actual_num_candidates :: "int list"
  num_running :: int

definition new_BaseIteration :: "int \<Rightarrow> int list \<Rightarrow> real list \<Rightarrow> real option \<Rightarrow> BaseIteration" where
  "new_BaseIteration it ncs bs t =
     \<lparr>data = [], is_finished = False, iteration = it, stage = 0, budgets = bs,
      it_timeout = t, num_candidates = ncs,
      actual_num_candidates = replicate (length ncs) 0, num_running = 0\<rparr>"

text \<open>
  The advancement policy is the abstract method \<open>_advance_to_next_stage(self, losses)\<close>:
  it sees the bracket (whose stage is already incremented) and the loss vector, and
  returns one boolean per loss, or raises.
\<close>

type_synonym policy = "BaseIteration \<Rightarrow> real option list \<Rightarrow> py_error + bool list"

definition register_result :: "store \<times> BaseIteration \<Rightarrow> addr \<Rightarrow> py_error + store \<times> BaseIteration" where
  "register_result s a =
     (case s of (h, b) \<Rightarrow>
        if is_finished b then Inl RuntimeError
        else Inr (h(a := (h a)\<lparr>status := REVIEW\<rparr>), b\<lparr>num_running := num_running b - 1\<rparr>))"

text \<open>
  \<open>_add_candidate\<close>: \<open>fresh\<close> is the reference that
  \<open>self.structure_generator.get_candidate()\<close> returns (the generator is an external
  collaborator). The call to the result logger writes a log line and is not modelled.
\<close>

definition add_candidate :: "addr \<Rightarrow> store \<times> BaseIteration \<Rightarrow> py_error + addr \<times> store \<times> BaseIteration" where
  "add_candidate fresh s =
     (case s of (h, b) \<Rightarrow>
        if is_finished b then Inl RuntimeError
        else case py_index (actual_num_candidates b) (stage b) of
          Inl e \<Rightarrow> Inl e
        | Inr act \<Rightarrow>
           (case py_index (num_candidates b) (stage b) of
              Inl e \<Rightarrow> Inl e
            | Inr cap \<Rightarrow>
               if act = cap then Inl RuntimeError
               else case py_index (budgets b) (stage b) of
                 Inl e \<Rightarrow> Inl e
               | Inr bud \<Rightarrow>
                  (let candidate_id = new_CandidateId (iteration b) act;
                       h' = h(fresh := (h fresh)\<lparr>timeout := it_timeout b, budget := bud,
                                                 cs_id := Some candidate_id\<rparr>)
                   in Inr (fresh, h',
                           b\<lparr>data := AList.update candidate_id fresh (data b),
                             actual_num_candidates :=
                               (actual_num_candidates b)[stage b := act + 1]\<rparr>))))"

fun finish_up_loop :: "(CandidateId \<times> addr) list \<Rightarrow> store \<Rightarrow> py_error + store" where
  "finish_up_loop [] h = Inr h"
| "finish_up_loop ((k, a) # rest) h =
     (if status (h a) \<in> {TERMINATED, REVIEW, CRASHED}
      then finish_up_loop rest (h(a := (h a)\<lparr>status := COMPLETED\<rparr>))
      else Inl AssertionError)"

definition finish_up :: "store \<times> BaseIteration \<Rightarrow> py_error + store \<times> BaseIteration" where
  "finish_up s =
     (case s of (h, b) \<Rightarrow>
        case finish_up_loop (data b) h of
          Inl e \<Rightarrow> Inl e
        | Inr h' \<Rightarrow> Inr (h', b\<lparr>is_finished := True\<rparr>))"

fun collect_losses :: "store \<Rightarrow> real \<Rightarrow> (CandidateId \<times> addr) list \<Rightarrow> py_error + real option list" where
  \<comment> \<open>\<open>[self.data[cid].get_incumbent(budget).loss for cid in candidate_ids]\<close>\<close>
  "collect_losses h bud [] = Inr []"
| "collect_losses h bud ((k, a) # rest) =
     (case get_incumbent (h a) (Some bud) of
        Inl e \<Rightarrow> Inl e
      | Inr r \<Rightarrow>
         (case collect_losses h bud rest of
            Inl e \<Rightarrow> Inl e
          | Inr ls \<Rightarrow> Inr (loss r # ls)))"

fun advance_loop ::
  "bool list \<Rightarrow> nat \<Rightarrow> (CandidateId \<times> addr) list \<Rightarrow> store \<times> BaseIteration
   \<Rightarrow> py_error + store \<times> BaseIteration" where
  \<comment> \<open>\<open>for i, cid in enumerate(candidate_ids)\<close>, from index \<open>i\<close> on\<close>
  "advance_loop av i [] s = Inr s"
| "advance_loop av i ((k, a) # rest) (h, b) =
     (case py_index av i of
        Inl e \<Rightarrow> Inl e
      | Inr True \<Rightarrow>
         (case py_index (budgets b) (stage b) of
            Inl e \<Rightarrow> Inl e
          | Inr nb \<Rightarrow>
             (case py_index (actual_num_candidates b) (stage b) of
                Inl e \<Rightarrow> Inl e
              | Inr act \<Rightarrow>
                 advance_loop av (Suc i) rest
                   (h(a := (h a)\<lparr>status := QUEUED, budget := nb\<rparr>),
                    b\<lparr>actual_num_candidates :=
                        (actual_num_candidates b)[stage b := act + 1]\<rparr>)))
      | Inr False \<Rightarrow>
         advance_loop av (Suc i) rest (h(a := (h a)\<lparr>status := TERMINATED\<rparr>), b))"

text \<open>
  \<open>_finish_stage\<close>. A dict has each key once, so iterating over the items of \<open>data\<close>
  is iterating over its keys and looking each one up.
\<close>

definition review_candidates :: "store \<Rightarrow> BaseIteration \<Rightarrow> (CandidateId \<times> addr) list" where
  "review_candidates h b = filter (\<lambda>(k, a). status (h a) = REVIEW) (data b)"

definition finish_stage :: "policy \<Rightarrow> store \<times> BaseIteration \<Rightarrow> py_error + store \<times> BaseIteration" where
  "finish_stage adv s =
     (case s of (h, b0) \<Rightarrow>
        let b = b0\<lparr>stage := Suc (stage b0)\<rparr>;
            candidate_ids = review_candidates h b
        in if stage b \<ge> length (num_candidates b) then finish_up (h, b)
           else if length (remdups (map (\<lambda>(k, a). budget (h a)) candidate_ids)) > 1
             then Inl RuntimeError
           else case py_index (budgets b) (stage b - 1) of
             Inl e \<Rightarrow> Inl e
           | Inr bud \<Rightarrow>
              (case collect_losses h bud candidate_ids of
                 Inl e \<Rightarrow> Inl e
               | Inr losses \<Rightarrow>
                  (case adv b losses of
                     Inl e \<Rightarrow> Inl e
                   | Inr advance \<Rightarrow> advance_loop advance 0 candidate_ids (h, b))))"

lemma finish_up_stage:
  "finish_up (h, b) = Inr (h', b') \<Longrightarrow>
     stage b' = stage b \<and> num_candidates b' = num_candidates b \<and> is_finished b'"
  by (auto simp: finish_up_def split: sum.splits)

lemma advance_loop_frame:
  "advance_loop av i xs (h, b) = Inr (h', b') \<Longrightarrow>
     stage b' = stage b \<and> num_candidates b' = num_candidates b
     \<and> budgets b' = budgets b \<and> data b' = data b \<and> is_finished b' = is_finished b
     \<and> iteration b' = iteration b \<and> num_running b' = num_running b
     \<and> it_timeout b' = it_timeout b
     \<and> length (actual_num_candidates b') = length (actual_num_candidates b)"
proof (induction xs arbitrary: i h b)
  case Nil
  then show ?case by simp
next
  case (Cons x xs)
  obtain k a where x: "x = (k, a)" by (cases x)
  from Cons.prems show ?case
    unfolding x
    by (auto split: sum.splits bool.splits dest!: Cons.IH)
qed

lemma finish_stage_stage:
  "finish_stage adv (h, b) = Inr (h', b') \<Longrightarrow>
     stage b' = Suc (stage b) \<and> num_candidates b' = num_candidates b
     \<and> (length (num_candidates b) \<le> Suc (stage b) \<longrightarrow> is_finished b')"
  by (auto simp: finish_stage_def Let_def split: if_splits sum.splits
           dest!: finish_up_stage advance_loop_frame)

function get_next_candidate ::
  "policy \<Rightarrow> addr \<Rightarrow> store \<times> BaseIteration \<Rightarrow> py_error + addr option \<times> store \<times> BaseIteration" where
  "get_next_candidate adv fresh (h, b) =
     (if is_finished b then Inr (None, h, b)
      else case filter (\<lambda>(k, a). status (h a) = QUEUED) (data b) of
        (k, a) # rest \<Rightarrow>
          (case py_index (budgets b) (stage b) of
             Inl e \<Rightarrow> Inl e
           | Inr bud \<Rightarrow>
              if budget (h a) = bud
              then Inr (Some a, h(a := (h a)\<lparr>status := RUNNING\<rparr>),
                        b\<lparr>num_running := num_running b + 1\<rparr>)
              else Inl AssertionError)
      | [] \<Rightarrow>
          (case py_index (actual_num_candidates b) (stage b) of
             Inl e \<Rightarrow> Inl e
           | Inr act \<Rightarrow>
              (case py_index (num_candidates b) (stage b) of
                 Inl e \<Rightarrow> Inl e
               | Inr cap \<Rightarrow>
                  if act < cap then
                    (case add_candidate fresh (h, b) of
                       Inl e \<Rightarrow> Inl e
                     | Inr (c, h1, b1) \<Rightarrow>
                         Inr (Some c, h1(c := (h1 c)\<lparr>status := RUNNING\<rparr>),
                              b1\<lparr>num_running := num_running b1 + 1\<rparr>))
                  else if num_running b = 0 then
                    (case finish_stage adv (h, b) of
                       Inl e \<Rightarrow> Inl e
                     | Inr (h1, b1) \<Rightarrow> get_next_candidate adv fresh (h1, b1))
                  else Inr (None, h, b))))"
  by pat_completeness auto
termination
proof (relation "measure (\<lambda>(adv, fresh, h, b).
          (if is_finished b then 0 else 1) + (length (num_candidates b) - stage b))")
  show "wf (measure (\<lambda>(adv, fresh, h, b).
          (if is_finished b then 0 else 1) + (length (num_candidates b) - stage b)))"
    by simp
next
  fix adv :: policy and fresh :: addr and h b act cap x h1 b1 y
  assume "\<not> is_finished b"
    and "py_index (num_candidates b) (stage b) = Inr cap"
    and "finish_stage adv (h, b) = Inr x" and "(h1, b1) = x"
  then have fs: "finish_stage adv (h, b) = Inr (h1, b1)"
    and lt: "stage b < length (num_candidates b)"
    by (auto simp: py_index_def split: if_splits)
  from finish_stage_stage[OF fs] lt \<open>\<not> is_finished b\<close>
  show "((adv, fresh, h1, b1), (adv, fresh, h, b)) \<in> measure (\<lambda>(adv, fresh, h, b).
          (if is_finished b then 0 else 1) + (length (num_candidates b) - stage b))"
    by auto
qed

section \<open>hpbandster/optimizers/iterations/successiveresampling.py\<close>

text \<open>
  \<open>np.argsort\<close> is library code. It is modelled as the stable sort of the indices by
  their values (the spec's "stable double-rank"); on the permutation that the inner call
  returns the outer call has no ties to break.
\<close>

definition argsort :: "('a::linorder) list \<Rightarrow> nat list" where
  "argsort xs = sort_key (\<lambda>i. xs ! i) [0..<length xs]"

text \<open>
  \<open>_advance_to_next_stage\<close>, as a function of the two attributes set by the constructor
  (\<open>min_samples_advance\<close>, \<open>resampling_rate\<close>), the two attributes of the base class it
  reads (\<open>num_configs\<close>, \<open>stage\<close>) and the loss vector.
\<close>

definition advance_to_next_stage ::
  "int \<Rightarrow> real \<Rightarrow> int list \<Rightarrow> nat \<Rightarrow> real list \<Rightarrow> py_error + bool list" where
  "advance_to_next_stage min_samples_advance resampling_rate num_configs stg losses =
     (let ranks = argsort (argsort losses)
      in case py_index num_configs stg of
           Inl e \<Rightarrow> Inl e
         | Inr n \<Rightarrow>
             Inr (map (\<lambda>r. real r < max (real_of_int min_samples_advance)
                                        (real_of_int n * (1 - resampling_rate))) ranks))"

text \<open>
  The same policy plugged into a dswizard bracket, whose capacity ladder is called
  \<open>num_candidates\<close>. A loss vector holding \<open>None\<close> cannot be sorted.
\<close>

definition successive_resampling :: "int \<Rightarrow> real \<Rightarrow> policy" where
  "successive_resampling min_samples_advance resampling_rate b ls =
     (if None \<in> set ls then Inl TypeError
      else advance_to_next_stage min_samples_advance resampling_rate
             (num_candidates b) (stage b) (map the ls))"

section \<open>dswizard/core/config_generator_cache.py\<close>

text \<open>
  The cache is keyed by the search space of a pipeline; the key type \<open>'k\<close> stands for
  search spaces up to their \<open>__eq__\<close>/\<open>__hash__\<close>. The generator class \<open>clazz\<close> is
  external: constructing an instance either raises or yields a new object. Objects are
  identified by the order of their construction: \<open>constructed\<close> lists, for every
  instance that \<open>clazz\<close> has built for this cache, the search space it was built for
  and its state, and a reference to an instance is its position in that list. The cache
  itself is the dict \<open>cache\<close> from search spaces to references.
\<close>

record ('k, 's) FlexiblePipeline =
  configuration_space :: 'k
  steps :: 's

record ('k, 'g) ConfigGeneratorCache =
  cache :: "('k \<times> nat) list"
  constructed :: "('k \<times> 'g) list"

definition new_ConfigGeneratorCache :: "('k, 'g) ConfigGeneratorCache" where
  "new_ConfigGeneratorCache = \<lparr>cache = [], constructed = []\<rparr>"

definition get ::
  "('k \<Rightarrow> ('k, 's) FlexiblePipeline \<Rightarrow> py_error + 'g) \<Rightarrow> ('k, 'g) ConfigGeneratorCache
   \<Rightarrow> ('k, 's) FlexiblePipeline \<Rightarrow> py_error + nat \<times> ('k, 'g) ConfigGeneratorCache" where
  "get clazz st pipeline =
     (let configspace = configuration_space pipeline
      in case map_of (cache st) configspace of
           Some cg \<Rightarrow> Inr (cg, st)
         | None \<Rightarrow>
            (case clazz configspace pipeline of
               Inl e \<Rightarrow> Inl e
             | Inr g \<Rightarrow>
                (let cg = length (constructed st)
                 in Inr (cg, st\<lparr>cache := AList.update configspace cg (cache st),
                                constructed := constructed st @ [(configspace, g)]\<rparr>))))"

text \<open>A sequence of \<open>get\<close> calls, one after the other; a call that raises leaves the
  cache as it was and the sequence goes on.\<close>

fun get_all ::
  "('k \<Rightarrow> ('k, 's) FlexiblePipeline \<Rightarrow> py_error + 'g) \<Rightarrow> ('k, 'g) ConfigGeneratorCache
   \<Rightarrow> ('k, 's) FlexiblePipeline list \<Rightarrow> (py_error + nat) list \<times> ('k, 'g) ConfigGeneratorCache" where
  "get_all clazz st [] = ([], st)"
| "get_all clazz st (p # ps) =
     (case get clazz st p of
        Inl e \<Rightarrow> (case get_all clazz st ps of (rs, st') \<Rightarrow> (Inl e # rs, st'))
      | Inr (cg, st1) \<Rightarrow> (case get_all clazz st1 ps of (rs, st') \<Rightarrow> (Inr cg # rs, st')))"

text \<open>
  The cache maps a search space to the one instance constructed for it, and every
  constructed instance is in the cache.
\<close>

definition cache_inv :: "('k, 'g) ConfigGeneratorCache \<Rightarrow> bool" where
  "cache_inv st =
     (distinct (map fst (constructed st))
      \<and> (\<forall>k cg. map_of (cache st) k = Some cg
             \<longleftrightarrow> cg < length (constructed st) \<and> fst (constructed st ! cg) = k))"


definition key_pipeline :: "nat \<Rightarrow> (nat, unit) FlexiblePipeline" where
  "key_pipeline k = \<lparr>configuration_space = k, steps = ()\<rparr>"

section \<open>dswizard/core/runhistory.py\<close>

text \<open>
  The three timestamps of a run, as the results log stores them.
\<close>

record TimeStamps =
  submitted :: real
  started :: real
  finished :: real

text \<open>
  What \<open>results[budget]\<close> of a record may hold: \<open>None\<close>, a bare loss (the number read
  from the results log), or a result object with a \<open>loss\<close> attribute.
\<close>

datatype ResultValue = NoResult | LossValue real | ResultObject "real option"

text \<open>
  Modelled from the spec: \<open>Datum\<close> and \<open>ConfigId\<close> are imported from
  \<open>dswizard.core.model\<close>, which does not define them. A \<open>Datum\<close> has the three
  per-budget dicts that \<open>runhistory.py\<close> reads and writes (the spec's results-log
  record: budget, timestamps, loss or null, exception text or null); its configuration is
  opaque and left out. \<open>ConfigId\<close> is the id triplet, that is \<open>CandidateId\<close>.
\<close>

record Datum =
  datum_results :: "(real \<times> ResultValue) list"
  datum_time_stamps :: "(real \<times> TimeStamps) list"
  datum_exceptions :: "(real \<times> string option) list"

definition new_Datum :: Datum where
  "new_Datum = \<lparr>datum_results = [], datum_time_stamps = [], datum_exceptions = []\<rparr>"

text \<open>The bracket metadata dict \<open>HB_config\<close>, with the keys the loader writes.\<close>

record HBConfig =
  eta :: "real option"
  min_budget :: real
  max_budget :: real
  hb_budgets :: "real list"
  max_SH_iter :: nat
  time_ref :: real

record RunHistory =
  HB_config :: HBConfig
  rh_data :: "(CandidateId \<times> Datum) list"

record Run =
  run_config_id :: CandidateId
  run_budget :: real
  run_loss :: "real option"
  run_time_stamps :: TimeStamps
  run_error_logs :: "string option"

text \<open>\<open>dict.update\<close>: later entries overwrite earlier ones, new keys are appended.\<close>

definition dict_update :: "('k \<times> 'v) list \<Rightarrow> ('k \<times> 'v) list \<Rightarrow> ('k \<times> 'v) list" where
  "dict_update acc it = fold (\<lambda>(k, v) a. AList.update k v a) it acc"

definition rebase :: "real \<Rightarrow> TimeStamps \<Rightarrow> TimeStamps" where
  "rebase tref ts = \<lparr>submitted = submitted ts - tref, started = started ts - tref,
                      finished = finished ts - tref\<rparr>"

definition merge_results :: "real \<Rightarrow> (CandidateId \<times> Datum) list list \<Rightarrow> (CandidateId \<times> Datum) list" where
  "merge_results tref ds =
     map (\<lambda>(k, v). (k, v\<lparr>datum_time_stamps :=
                            map (\<lambda>(b, ts). (b, rebase tref ts)) (datum_time_stamps v)\<rparr>))
         (fold (\<lambda>it acc. dict_update acc it) ds [])"

definition new_RunHistory :: "(CandidateId \<times> Datum) list list \<Rightarrow> HBConfig \<Rightarrow> RunHistory" where
  "new_RunHistory HB_iteration_data cfg =
     \<lparr>HB_config = cfg, rh_data = merge_results (time_ref cfg) HB_iteration_data\<rparr>"

text \<open>
  \<open>get_incumbent_id\<close>: the loop that collects \<open>(res.loss, k)\<close>. A missing budget is
  the caught \<open>KeyError\<close>; a bare number has no attribute \<open>loss\<close>.
\<close>

fun incumbent_candidates ::
  "real \<Rightarrow> (CandidateId \<times> Datum) list \<Rightarrow> py_error + (real option \<times> CandidateId) list" where
  "incumbent_candidates mb [] = Inr []"
| "incumbent_candidates mb ((k, v) # rest) =
     (case map_of (datum_results v) mb of
        None \<Rightarrow> incumbent_candidates mb rest
      | Some NoResult \<Rightarrow> incumbent_candidates mb rest
      | Some (LossValue x) \<Rightarrow> Inl AttributeError
      | Some (ResultObject l) \<Rightarrow>
          (case incumbent_candidates mb rest of
             Inl e \<Rightarrow> Inl e
           | Inr tmp \<Rightarrow> Inr ((l, k) # tmp)))"

text \<open>
  \<open>min(tmp_list)\<close> compares the tuples with \<open><\<close>: the first components that differ
  decide, and ordering \<open>None\<close> against a number raises.
\<close>

definition pair_less :: "real option \<times> CandidateId \<Rightarrow> real option \<times> CandidateId \<Rightarrow> py_error + bool" where
  "pair_less x y =
     (case (x, y) of ((l1, k1), (l2, k2)) \<Rightarrow>
        if l1 \<noteq> l2 then
          (case (l1, l2) of (Some a, Some b) \<Rightarrow> Inr (a < b) | _ \<Rightarrow> Inl TypeError)
        else if \<not> cid_eq k1 k2 then Inr (cid_less k1 k2)
        else Inr False)"

fun py_min :: "real option \<times> CandidateId \<Rightarrow> (real option \<times> CandidateId) list
               \<Rightarrow> py_error + real option \<times> CandidateId" where
  "py_min best [] = Inr best"
| "py_min best (x # xs) =
     (case pair_less x best of
        Inl e \<Rightarrow> Inl e
      | Inr lt \<Rightarrow> py_min (if lt then x else best) xs)"

definition get_incumbent_id :: "RunHistory \<Rightarrow> py_error + CandidateId option" where
  "get_incumbent_id rh =
     (case incumbent_candidates (max_budget (HB_config rh)) (rh_data rh) of
        Inl e \<Rightarrow> Inl e
      | Inr [] \<Rightarrow> Inr None
      | Inr (x # xs) \<Rightarrow>
          (case py_min x xs of Inl e \<Rightarrow> Inl e | Inr (l, k) \<Rightarrow> Inr (Some k)))"

text \<open>\<open>get_runs_by_id\<close>: one run per budget of the record, sorted by budget.\<close>

fun runs_of :: "CandidateId \<Rightarrow> Datum \<Rightarrow> (real \<times> ResultValue) list \<Rightarrow> py_error + Run list" where
  "runs_of config_id d [] = Inr []"
| "runs_of config_id d ((b, res) # rest) =
     (case map_of (datum_time_stamps d) b of
        None \<Rightarrow> Inl KeyError
      | Some ts \<Rightarrow>
         (let err_logs = (case map_of (datum_exceptions d) b of None \<Rightarrow> None | Some e \<Rightarrow> e);
              l = (case res of NoResult \<Rightarrow> None | LossValue x \<Rightarrow> Some x | ResultObject lo \<Rightarrow> lo)
          in case runs_of config_id d rest of
               Inl e \<Rightarrow> Inl e
             | Inr runs \<Rightarrow>
                 Inr (\<lparr>run_config_id = config_id, run_budget = b, run_loss = l,
                       run_time_stamps = ts, run_error_logs = err_logs\<rparr> # runs)))"

definition get_runs_by_id :: "RunHistory \<Rightarrow> CandidateId \<Rightarrow> py_error + Run list" where
  "get_runs_by_id rh config_id =
     (case map_of (rh_data rh) config_id of
        None \<Rightarrow> Inl KeyError
      | Some d \<Rightarrow>
         (case runs_of config_id d (datum_results d) of
            Inl e \<Rightarrow> Inl e
          | Inr runs \<Rightarrow> Inr (sort_key run_budget runs)))"

fun all_runs_of :: "RunHistory \<Rightarrow> bool \<Rightarrow> CandidateId list \<Rightarrow> py_error + Run list" where
  "all_runs_of rh only_largest_budget [] = Inr []"
| "all_runs_of rh only_largest_budget (k # ks) =
     (case get_runs_by_id rh k of
        Inl e \<Rightarrow> Inl e
      | Inr runs \<Rightarrow>
         (case all_runs_of rh only_largest_budget ks of
            Inl e \<Rightarrow> Inl e
          | Inr others \<Rightarrow>
              Inr ((if runs = [] then []
                    else if only_largest_budget then [last runs] else runs) @ others)))"

definition get_all_runs :: "RunHistory \<Rightarrow> bool \<Rightarrow> py_error + Run list" where
  "get_all_runs rh only_largest_budget =
     all_runs_of rh only_largest_budget (map fst (rh_data rh))"

text \<open>
  \<open>get_incumbent_trajectory\<close>. \<open>current_incumbent\<close> starts at \<open>float('inf')\<close>, which is
  above every loss; the returned dict of four parallel lists is a record.
\<close>

record Trajectory =
  config_ids :: "CandidateId list"
  times_finished :: "real list"
  traj_budgets :: "real list"
  traj_losses :: "real list"

datatype IncumbentLoss = PosInf | Loss real

definition append_point :: "Trajectory \<Rightarrow> CandidateId \<Rightarrow> real \<Rightarrow> real \<Rightarrow> real \<Rightarrow> Trajectory" where
  "append_point t c tf b l =
     \<lparr>config_ids = config_ids t @ [c], times_finished = times_finished t @ [tf],
      traj_budgets = traj_budgets t @ [b], traj_losses = traj_losses t @ [l]\<rparr>"

fun scan_runs ::
  "bool \<Rightarrow> bool \<Rightarrow> Run list \<Rightarrow> IncumbentLoss \<times> real \<times> Trajectory
   \<Rightarrow> IncumbentLoss \<times> real \<times> Trajectory" where
  "scan_runs bigger_is_better non_decreasing_budget [] s = s"
| "scan_runs bigger_is_better non_decreasing_budget (r # rs) (current_incumbent, incumbent_budget, t) =
     (case run_loss r of
        None \<Rightarrow> scan_runs bigger_is_better non_decreasing_budget rs
                  (current_incumbent, incumbent_budget, t)
      | Some l \<Rightarrow>
         (let n1 = (bigger_is_better \<and> run_budget r > incumbent_budget);
              n2 = (n1 \<or> (case current_incumbent of PosInf \<Rightarrow> True | Loss c \<Rightarrow> l < c));
              new_incumbent = (n2 \<and> \<not> (non_decreasing_budget \<and> run_budget r < incumbent_budget))
          in if new_incumbent
             then scan_runs bigger_is_better non_decreasing_budget rs
                    (Loss l, run_budget r,
                     append_point t (run_config_id r) (finished (run_time_stamps r))
                       (run_budget r) l)
             else scan_runs bigger_is_better non_decreasing_budget rs
                    (current_incumbent, incumbent_budget, t)))"

definition differs :: "IncumbentLoss \<Rightarrow> real option \<Rightarrow> bool" where
  \<comment> \<open>\<open>current_incumbent != r.loss\<close>\<close>
  "differs c l = (case (c, l) of (Loss x, Some y) \<Rightarrow> x \<noteq> y | _ \<Rightarrow> True)"

definition get_incumbent_trajectory ::
  "RunHistory \<Rightarrow> bool \<Rightarrow> bool \<Rightarrow> bool \<Rightarrow> py_error + Trajectory" where
  "get_incumbent_trajectory rh all_budgets bigger_is_better non_decreasing_budget =
     (case get_all_runs rh (\<not> all_budgets) of
        Inl e \<Rightarrow> Inl e
      | Inr runs0 \<Rightarrow>
         (let runs1 = (if \<not> all_budgets
                       then filter (\<lambda>r. run_budget r = max_budget (HB_config rh)) runs0
                       else runs0);
              all_runs = sort_key (\<lambda>r. finished (run_time_stamps r)) runs1;
              return_dict = \<lparr>config_ids = [], times_finished = [], traj_budgets = [], traj_losses = []\<rparr>
          in if all_runs = [] then Inr return_dict
             else case scan_runs bigger_is_better non_decreasing_budget all_runs
                         (PosInf, min_budget (HB_config rh), return_dict) of
               (current_incumbent, incumbent_budget, t) \<Rightarrow>
                 if differs current_incumbent (run_loss (last all_runs))
                 then (if config_ids t = [] then Inl IndexError
                       else Inr (append_point t (last (config_ids t))
                                   (finished (run_time_stamps (last all_runs)))
                                   (last (traj_budgets t)) (last (traj_losses t))))
                 else Inr t))"

text \<open>
  \<open>logged_results_to_runhistory\<close>. The two logs are taken as already parsed: of a line of
  the configs log only the id triplet matters here; a line of the results log is the
  record below. \<open>time_ref\<close> starts at \<open>float('inf')\<close> (\<open>None\<close> here) and
  \<open>budget_set\<close> is kept as a duplicate-free list. When no result line was read,
  \<open>min(budget_set)\<close> raises before \<open>time_ref\<close> is used.
\<close>

record ResultLine =
  rl_config_id :: "int \<times> int \<times> int"
  rl_budget :: real
  rl_time_stamps :: TimeStamps
  rl_result :: "real option"
  rl_exception :: "string option"

definition ConfigId :: "int \<times> int \<times> int \<Rightarrow> CandidateId" where
  "ConfigId t = (case t of (a, b, c) \<Rightarrow> CandidateId a b c)"

fun load_results ::
  "ResultLine list \<Rightarrow> (CandidateId \<times> Datum) list \<times> real list \<times> real option
   \<Rightarrow> py_error + (CandidateId \<times> Datum) list \<times> real list \<times> real option" where
  "load_results [] s = Inr s"
| "load_results (line # rest) (dat, budget_set, tref) =
     (let ident = ConfigId (rl_config_id line); b = rl_budget line
      in case map_of dat ident of
           None \<Rightarrow> Inl KeyError
         | Some d \<Rightarrow>
            load_results rest
              (AList.update ident
                 (d\<lparr>datum_time_stamps := AList.update b (rl_time_stamps line) (datum_time_stamps d),
                    datum_results :=
                      AList.update b (case rl_result line of None \<Rightarrow> NoResult | Some x \<Rightarrow> LossValue x)
                        (datum_results d),
                    datum_exceptions := AList.update b (rl_exception line) (datum_exceptions d)\<rparr>)
                 dat,
               List.insert b budget_set,
               Some (case tref of None \<Rightarrow> submitted (rl_time_stamps line)
                     | Some t \<Rightarrow> min t (submitted (rl_time_stamps line)))))"

definition logged_results_to_runhistory ::
  "(int \<times> int \<times> int) list \<Rightarrow> ResultLine list \<Rightarrow> py_error + RunHistory" where
  "logged_results_to_runhistory configs results_log =
     (let data0 = fold (\<lambda>c d. AList.update (ConfigId c) new_Datum d) configs []
      in case load_results results_log (data0, [], None) of
           Inl e \<Rightarrow> Inl e
         | Inr (dat, budget_set, tref) \<Rightarrow>
            (let budget_list = sort budget_set
             in case (if length budget_list < 2 then Inr None
                      else if budget_list ! 0 = 0 then Inl ZeroDivisionError
                      else Inr (Some (budget_list ! 1 / budget_list ! 0))) of
                  Inl e \<Rightarrow> Inl e
                | Inr et \<Rightarrow>
                   (if budget_set = [] then Inl ValueError
                    else case tref of
                      None \<Rightarrow> Inl ValueError
                    | Some t \<Rightarrow>
                       Inr (new_RunHistory [dat]
                              \<lparr>eta = et, min_budget = Min (set budget_set),
                               max_budget = Max (set budget_set), hb_budgets = budget_list,
                               max_SH_iter = length budget_set, time_ref = t\<rparr>))))"


text \<open>The timestamps seen so far, as a set.\<close>

definition seen :: "real option \<Rightarrow> real set" where
  "seen tref = (case tref of None \<Rightarrow> {} | Some t \<Rightarrow> {t})"

section \<open>Driving one bracket\<close>

text \<open>
  The orchestrator drives a bracket with two calls: it asks for the next candidate
  (\<open>Next\<close>, with the object the structure generator would hand out), and the completion
  callback of a job appends the result to the candidate and registers it with the bracket
  (\<open>Report\<close>: \<open>job.cs.add_result(job.result)\<close> in \<open>Master._result_callback\<close>, then
  \<open>register_result\<close>). \<open>drive\<close> runs a list of such calls and stops at the first error.
\<close>

datatype op = Next addr | Report addr Result

fun drive :: "policy \<Rightarrow> op list \<Rightarrow> store \<times> BaseIteration \<Rightarrow> py_error + store \<times> BaseIteration" where
  "drive adv [] s = Inr s"
| "drive adv (Next fresh # ops) s =
     (case get_next_candidate adv fresh s of
        Inl e \<Rightarrow> Inl e
      | Inr (c, s') \<Rightarrow> drive adv ops s')"
| "drive adv (Report a r # ops) (h, b) =
     (case register_result (h(a := add_result (h a) r None), b) a of
        Inl e \<Rightarrow> Inl e
      | Inr s' \<Rightarrow> drive adv ops s')"

section \<open>Predicates used in the statements\<close>

definition num_true :: "bool list \<Rightarrow> nat" where
  "num_true av = length (filter (\<lambda>v. v) av)"

text \<open>
  The stable rank of a candidate, in the spec's words: the number of candidates that come
  before it when the losses are ranked in ascending order and ties are broken by position.
\<close>

definition before :: "('a::linorder) list \<Rightarrow> nat \<Rightarrow> nat \<Rightarrow> bool" where
  "before xs j i = (xs ! j < xs ! i \<or> (xs ! j = xs ! i \<and> j < i))"




text \<open>The capacity invariant of a bracket: no stage holds more candidates than declared.\<close>

definition capacity_inv :: "BaseIteration \<Rightarrow> bool" where
  "capacity_inv b =
     (length (actual_num_candidates b) = length (num_candidates b)
      \<and> (\<forall>s<length (num_candidates b). actual_num_candidates b ! s \<le> num_candidates b ! s))"

text \<open>Stages that the bracket has not reached yet hold no candidate.\<close>

definition later_stages_empty :: "BaseIteration \<Rightarrow> bool" where
  "later_stages_empty b =
     (\<forall>s<length (actual_num_candidates b). stage b < s \<longrightarrow> actual_num_candidates b ! s = 0)"

text \<open>
  A policy respects the capacity ladder \<open>ncs\<close> when, of the losses it is given, it never
  marks more than the capacity of the stage it advances into.
\<close>

definition policy_within_capacity :: "policy \<Rightarrow> int list \<Rightarrow> bool" where
  "policy_within_capacity adv ncs =
     (\<forall>b ls av. num_candidates b = ncs \<and> stage b < length ncs \<and> adv b ls = Inr av
        \<longrightarrow> int (num_true (take (length ls) av)) \<le> ncs ! stage b)"

text \<open>No result stored in the history is a result object.\<close>

definition bare_losses :: "(CandidateId \<times> Datum) list \<Rightarrow> bool" where
  "bare_losses dat =
     (\<forall>(k, d)\<in>set dat. \<forall>(b, v)\<in>set (datum_results d). \<forall>l. v \<noteq> ResultObject l)"

section \<open>Example brackets\<close>

text \<open>
  A bracket with capacities \<open>[2, 1]\<close> and budgets \<open>[1, 3]\<close> whose two stage-0
  candidates have reported losses 0.5 and 0.2 and wait for review.
\<close>

definition ex_result :: "real \<Rightarrow> Result" where
  "ex_result l = \<lparr>res_status = Some SUCCESS, loss = Some l\<rparr>"

definition ex_store :: store where
  "ex_store = (\<lambda>_. new_CandidateStructure 1 None)
     (0 := (new_CandidateStructure 1 None)\<lparr>status := REVIEW, results := [(1, [ex_result (1/2)])]\<rparr>,
      1 := (new_CandidateStructure 1 None)\<lparr>status := REVIEW, results := [(1, [ex_result (1/5)])]\<rparr>)"

definition ex_bracket :: BaseIteration where
  "ex_bracket = (new_BaseIteration 0 [2, 1] [1, 3] None)
     \<lparr>data := [(new_CandidateId 0 0, 0), (new_CandidateId 0 1, 1)],
      actual_num_candidates := [2, 0]\<rparr>"

text \<open>The same store after the stage-0 review that advances the better candidate.\<close>

definition ex_advanced_store :: store where
  "ex_advanced_store = ex_store(0 := (ex_store 0)\<lparr>status := TERMINATED\<rparr>,
                                 1 := (ex_store 1)\<lparr>status := QUEUED, budget := 3\<rparr>)"

text \<open>
  A bracket with capacities \<open>[2, 2]\<close> in its second stage: of the two stage-0 candidates
  one was advanced and is running again, the other is terminated, and one slot of the
  second stage is free.
\<close>

definition ex_candidate :: "int \<Rightarrow> Status \<Rightarrow> real \<Rightarrow> (real \<times> Result list) list \<Rightarrow> CandidateStructure" where
  "ex_candidate i st bud res =
     \<lparr>budget = bud, timeout = None, cid = None, cs_id = Some (new_CandidateId 0 i),
      status = st, results = res, timestamps = []\<rparr>"

definition refill_store :: store where
  "refill_store = (\<lambda>_. new_CandidateStructure 1 None)
     (0 := ex_candidate 0 TERMINATED 1 [(1, [ex_result (1/2)])],
      1 := ex_candidate 1 RUNNING 3 [(1, [ex_result (1/5)])])"

definition refill_bracket :: BaseIteration where
  "refill_bracket = (new_BaseIteration 0 [2, 2] [1, 3] None)
     \<lparr>data := [(new_CandidateId 0 0, 0), (new_CandidateId 0 1, 1)],
      stage := 1, actual_num_candidates := [2, 1], num_running := 1\<rparr>"

lemmas refill_defs = refill_store_def refill_bracket_def ex_candidate_def ex_result_def
  new_BaseIteration_def new_CandidateStructure_def new_CandidateId_def



lemmas ex_defs = ex_store_def ex_bracket_def ex_result_def new_BaseIteration_def
  new_CandidateStructure_def new_CandidateId_def

section \<open>Example logs\<close>

text \<open>
  Two result logs and the histories they load to: one where the second candidate is also
  run on the larger budget, and one where two candidates report the same loss.
\<close>

definition ts :: "real \<Rightarrow> real \<Rightarrow> real \<Rightarrow> TimeStamps" where
  "ts a b c = \<lparr>submitted = a, started = b, finished = c\<rparr>"

definition tie_log :: "ResultLine list" where
  "tie_log =
     [\<lparr>rl_config_id = (0, 0, 0), rl_budget = 1, rl_time_stamps = ts 10 10 11,
       rl_result = Some (1/2), rl_exception = None\<rparr>,
      \<lparr>rl_config_id = (0, 1, 0), rl_budget = 1, rl_time_stamps = ts 10 11 12,
       rl_result = Some (1/2), rl_exception = None\<rparr>]"

definition tie_history :: RunHistory where
  "tie_history =
     \<lparr>HB_config = \<lparr>eta = None, min_budget = 1, max_budget = 1, hb_budgets = [1],
                    max_SH_iter = 1, time_ref = 10\<rparr>,
      rh_data =
        [(CandidateId 0 0 0,
          \<lparr>datum_results = [(1, LossValue (1/2))], datum_time_stamps = [(1, ts 0 0 1)],
           datum_exceptions = [(1, None)]\<rparr>),
         (CandidateId 0 1 0,
          \<lparr>datum_results = [(1, LossValue (1/2))], datum_time_stamps = [(1, ts 0 1 2)],
           datum_exceptions = [(1, None)]\<rparr>)]\<rparr>"


definition plain_log :: "ResultLine list" where
  "plain_log =
     [\<lparr>rl_config_id = (0, 0, 0), rl_budget = 1, rl_time_stamps = ts 10 10 11,
       rl_result = Some (1/2), rl_exception = None\<rparr>,
      \<lparr>rl_config_id = (0, 1, 0), rl_budget = 1, rl_time_stamps = ts 10 11 12,
       rl_result = Some (1/5), rl_exception = None\<rparr>,
      \<lparr>rl_config_id = (0, 1, 0), rl_budget = 3, rl_time_stamps = ts 12 12 15,
       rl_result = Some (1/10), rl_exception = None\<rparr>]"

definition plain_history :: RunHistory where
  "plain_history =
     \<lparr>HB_config = \<lparr>eta = Some 3, min_budget = 1, max_budget = 3, hb_budgets = [1, 3],
                    max_SH_iter = 2, time_ref = 10\<rparr>,
      rh_data =
        [(CandidateId 0 0 0,
          \<lparr>datum_results = [(1, LossValue (1/2))], datum_time_stamps = [(1, ts 0 0 1)],
           datum_exceptions = [(1, None)]\<rparr>),
         (CandidateId 0 1 0,
          \<lparr>datum_results = [(1, LossValue (1/5)), (3, LossValue (1/10))],
           datum_time_stamps = [(1, ts 0 1 2), (3, ts 2 2 5)],
           datum_exceptions = [(1, None), (3, None)]\<rparr>)]\<rparr>"

section \<open>Properties of the bracket\<close>

declare get_next_candidate.simps [simp del]

subsection \<open>The scheduling step, case by case\<close>


lemma gnc_queued:
  "\<not> is_finished b \<Longrightarrow>
   filter (\<lambda>(k, a). status (h a) = QUEUED) (data b) = (k, a) # rest \<Longrightarrow>
   stage b < length (budgets b) \<Longrightarrow> budget (h a) = budgets b ! stage b \<Longrightarrow>
   get_next_candidate adv fresh (h, b)
     = Inr (Some a, h(a := (h a)\<lparr>status := RUNNING\<rparr>), b\<lparr>num_running := num_running b + 1\<rparr>)"
  by (simp add: get_next_candidate.simps py_index_def)

lemma gnc_fill:
  "\<not> is_finished b \<Longrightarrow>
   filter (\<lambda>(k, a). status (h a) = QUEUED) (data b) = [] \<Longrightarrow>
   stage b < length (actual_num_candidates b) \<Longrightarrow> stage b < length (num_candidates b) \<Longrightarrow>
   actual_num_candidates b ! stage b < num_candidates b ! stage b \<Longrightarrow>
   add_candidate fresh (h, b) = Inr (c, hc, bc) \<Longrightarrow>
   get_next_candidate adv fresh (h, b)
     = Inr (Some c, hc(c := (hc c)\<lparr>status := RUNNING\<rparr>), bc\<lparr>num_running := num_running bc + 1\<rparr>)"
  by (simp add: get_next_candidate.simps py_index_def)

lemma gnc_next_stage:
  "\<not> is_finished b \<Longrightarrow>
   filter (\<lambda>(k, a). status (h a) = QUEUED) (data b) = [] \<Longrightarrow>
   stage b < length (actual_num_candidates b) \<Longrightarrow> stage b < length (num_candidates b) \<Longrightarrow>
   \<not> actual_num_candidates b ! stage b < num_candidates b ! stage b \<Longrightarrow>
   num_running b = 0 \<Longrightarrow>
   finish_stage adv (h, b) = Inr (h1, b1) \<Longrightarrow>
   get_next_candidate adv fresh (h, b) = get_next_candidate adv fresh (h1, b1)"
  by (simp add: get_next_candidate.simps[of adv fresh h b] py_index_def)

lemma gnc_wait:
  "\<not> is_finished b \<Longrightarrow>
   filter (\<lambda>(k, a). status (h a) = QUEUED) (data b) = [] \<Longrightarrow>
   stage b < length (actual_num_candidates b) \<Longrightarrow> stage b < length (num_candidates b) \<Longrightarrow>
   \<not> actual_num_candidates b ! stage b < num_candidates b ! stage b \<Longrightarrow>
   num_running b \<noteq> 0 \<Longrightarrow>
   get_next_candidate adv fresh (h, b) = Inr (None, h, b)"
  by (simp add: get_next_candidate.simps py_index_def)

subsection \<open>The promotion loop\<close>


lemma advance_loop_length:
  "advance_loop av i xs (h, b) = Inr (h', b') \<Longrightarrow> xs \<noteq> [] \<Longrightarrow> i + length xs \<le> length av"
proof (induction xs arbitrary: i h b)
  case Nil
  then show ?case by simp
next
  case (Cons x xs)
  obtain k c where x: "x = (k, c)" by (cases x)
  from Cons.prems have i: "i < length av"
    unfolding x by (auto simp: py_index_def split: sum.splits if_splits)
  show ?case
  proof (cases "xs = []")
    case True
    with i show ?thesis by simp
  next
    case False
    from Cons.prems obtain h1 b1 where "advance_loop av (Suc i) xs (h1, b1) = Inr (h', b')"
      unfolding x by (auto split: sum.splits bool.splits)
    from Cons.IH[OF this False] show ?thesis by simp
  qed
qed


lemma advance_loop_count:
  "advance_loop av i xs (h, b) = Inr (h', b') \<Longrightarrow>
     actual_num_candidates b' ! s =
       (if s = stage b
        then actual_num_candidates b ! s + int (length (filter (\<lambda>v. v) (take (length xs) (drop i av))))
        else actual_num_candidates b ! s)"
proof (induction xs arbitrary: i h b)
  case Nil
  then show ?case by simp
next
  case (Cons x xs)
  obtain c a where x: "x = (c, a)" by (cases x)
  from Cons.prems have i: "i < length av"
    unfolding x by (auto simp: py_index_def split: sum.splits if_splits)
  then have dr: "take (Suc (length xs)) (drop i av) = av ! i # take (length xs) (drop (Suc i) av)"
    by (simp add: Cons_nth_drop_Suc[symmetric])
  show ?case
  proof (cases "av ! i")
    case True
    with Cons.prems i obtain act where
      act: "stage b < length (actual_num_candidates b)"
      and rest: "advance_loop av (Suc i) xs
                  (h(a := (h a)\<lparr>status := QUEUED, budget := budgets b ! stage b\<rparr>),
                   b\<lparr>actual_num_candidates :=
                        (actual_num_candidates b)[stage b := actual_num_candidates b ! stage b + 1]\<rparr>)
                 = Inr (h', b')"
      unfolding x by (auto simp: py_index_def split: sum.splits bool.splits if_splits)
    from Cons.IH[OF rest] act True show ?thesis
      by (simp add: dr)
  next
    case False
    with Cons.prems i have
      rest: "advance_loop av (Suc i) xs (h(a := (h a)\<lparr>status := TERMINATED\<rparr>), b) = Inr (h', b')"
      unfolding x by (auto simp: py_index_def split: sum.splits bool.splits if_splits)
    from Cons.IH[OF rest] False show ?thesis
      by (simp add: dr)
  qed
qed

lemma collect_losses_length:
  "collect_losses h bud xs = Inr ls \<Longrightarrow> length ls = length xs"
proof (induction xs arbitrary: ls)
  case Nil
  then show ?case by simp
next
  case (Cons x xs)
  obtain k a where x: "x = (k, a)" by (cases x)
  from Cons.prems show ?case
    unfolding x by (auto split: sum.splits dest: Cons.IH)
qed




lemma length_argsort: "length (argsort xs) = length xs"
  by (simp add: argsort_def)



subsection \<open>The capacity invariant\<close>

lemma add_candidate_inv:
  assumes "add_candidate fresh (h, b) = Inr (a, h', b')"
    and "capacity_inv b" and "later_stages_empty b"
  shows "capacity_inv b' \<and> later_stages_empty b'
         \<and> num_candidates b' = num_candidates b \<and> stage b' = stage b"
proof -
  from assms(1) have st: "stage b < length (num_candidates b)"
    and ne: "actual_num_candidates b ! stage b \<noteq> num_candidates b ! stage b"
    and b': "b' = b\<lparr>data := AList.update
                       (new_CandidateId (iteration b) (actual_num_candidates b ! stage b))
                       fresh (data b),
                   actual_num_candidates :=
                     (actual_num_candidates b)[stage b := actual_num_candidates b ! stage b + 1]\<rparr>"
    by (auto simp: add_candidate_def py_index_def Let_def split: if_splits)
  from assms(2) st have "actual_num_candidates b ! stage b \<le> num_candidates b ! stage b"
    by (simp add: capacity_inv_def)
  with ne have lt: "actual_num_candidates b ! stage b + 1 \<le> num_candidates b ! stage b"
    by simp
  from assms(2,3) lt st show ?thesis
    unfolding b' by (auto simp: capacity_inv_def later_stages_empty_def nth_list_update)
qed

lemma register_result_inv:
  assumes "register_result (h, b) a = Inr (h', b')"
    and "capacity_inv b" and "later_stages_empty b"
  shows "capacity_inv b' \<and> later_stages_empty b'
         \<and> num_candidates b' = num_candidates b \<and> stage b' = stage b"
  using assms
  by (auto simp: register_result_def capacity_inv_def later_stages_empty_def split: if_splits)

lemma finish_stage_cases:
  assumes fs: "finish_stage adv (h, b) = Inr (h', b')"
  shows "(length (num_candidates b) \<le> Suc (stage b)
            \<and> finish_up (h, b\<lparr>stage := Suc (stage b)\<rparr>) = Inr (h', b'))
       \<or> (Suc (stage b) < length (num_candidates b)
            \<and> (\<exists>losses av.
                 collect_losses h (budgets b ! stage b) (review_candidates h b) = Inr losses
               \<and> adv (b\<lparr>stage := Suc (stage b)\<rparr>) losses = Inr av
               \<and> advance_loop av 0 (review_candidates h b) (h, b\<lparr>stage := Suc (stage b)\<rparr>)
                    = Inr (h', b')))"
  using fs
  by (auto simp: finish_stage_def Let_def review_candidates_def py_index_def
           split: if_splits sum.splits)

lemma finish_up_frame:
  "finish_up (h, b) = Inr (h', b') \<Longrightarrow> b' = b\<lparr>is_finished := True\<rparr>"
  by (auto simp: finish_up_def split: sum.splits)

lemma finish_stage_inv:
  assumes fs: "finish_stage adv (h, b) = Inr (h', b')"
    and pol: "policy_within_capacity adv (num_candidates b)"
    and cap: "capacity_inv b" and emp: "later_stages_empty b"
  shows "capacity_inv b' \<and> later_stages_empty b'
         \<and> num_candidates b' = num_candidates b \<and> stage b' = Suc (stage b)"
  using finish_stage_cases[OF fs]
proof (elim disjE conjE exE)
  assume "finish_up (h, b\<lparr>stage := Suc (stage b)\<rparr>) = Inr (h', b')"
  from finish_up_frame[OF this] cap emp show ?thesis
    by (auto simp: capacity_inv_def later_stages_empty_def)
next
  fix losses av
  let ?rv = "review_candidates h b"
  let ?b1 = "b\<lparr>stage := Suc (stage b)\<rparr>"
  assume inside: "Suc (stage b) < length (num_candidates b)"
    and cl: "collect_losses h (budgets b ! stage b) ?rv = Inr losses"
    and adv: "adv ?b1 losses = Inr av"
    and loop: "advance_loop av 0 ?rv (h, ?b1) = Inr (h', b')"
  from pol adv inside have bound: "int (num_true (take (length losses) av))
       \<le> num_candidates b ! Suc (stage b)"
    unfolding policy_within_capacity_def
    by (metis (no_types, lifting) BaseIteration.select_convs(4,7) BaseIteration.surjective
          BaseIteration.update_convs(4))
  have len: "length losses = length ?rv" by (rule collect_losses_length[OF cl])
  from advance_loop_frame[OF loop]
  have fr: "stage b' = Suc (stage b)" "num_candidates b' = num_candidates b"
       "length (actual_num_candidates b') = length (actual_num_candidates b)"
    by simp_all
  have act: "\<And>s. actual_num_candidates b' ! s =
       (if s = Suc (stage b)
        then actual_num_candidates b ! s + int (num_true (take (length ?rv) av))
        else actual_num_candidates b ! s)"
    using advance_loop_count[OF loop] by (simp add: num_true_def)
  from emp inside cap have zero: "actual_num_candidates b ! Suc (stage b) = 0"
    by (simp add: later_stages_empty_def capacity_inv_def)
  have "capacity_inv b'"
    using cap fr act bound zero len by (auto simp: capacity_inv_def)
  moreover have "later_stages_empty b'"
    using emp fr act by (auto simp: later_stages_empty_def)
  ultimately show ?thesis using fr by simp
qed

lemma get_next_candidate_inv:
  "get_next_candidate adv fresh (h, b) = Inr (r, h', b') \<Longrightarrow>
   policy_within_capacity adv (num_candidates b) \<Longrightarrow> capacity_inv b \<Longrightarrow> later_stages_empty b \<Longrightarrow>
   capacity_inv b' \<and> later_stages_empty b' \<and> num_candidates b' = num_candidates b"
proof (induction adv fresh "(h, b)" arbitrary: h b rule: get_next_candidate.induct)
  case (1 adv fresh h b)
  note gnc = get_next_candidate.simps[of adv fresh h b]
  show ?case
  proof (cases "is_finished b")
    case True
    with "1.prems" show ?thesis by (simp add: gnc)
  next
    case nf: False
    show ?thesis
    proof (cases "filter (\<lambda>(k, a). status (h a) = QUEUED) (data b)")
      case (Cons x rest)
      obtain k a where x: "x = (k, a)" by (cases x)
      from "1.prems" nf Cons show ?thesis
        unfolding x
        by (auto simp: gnc capacity_inv_def later_stages_empty_def split: sum.splits if_splits)
    next
      case Nil
      from "1.prems"(1) nf Nil obtain act cap where
        act: "py_index (actual_num_candidates b) (stage b) = Inr act"
        and cap: "py_index (num_candidates b) (stage b) = Inr cap"
        by (auto simp: gnc split: sum.splits)
      show ?thesis
      proof (cases "act < cap")
        case True
        with "1.prems"(1) nf Nil act cap obtain c h1 b1 where
          ac: "add_candidate fresh (h, b) = Inr (c, h1, b1)"
          and b': "b' = b1\<lparr>num_running := num_running b1 + 1\<rparr>"
          by (auto simp: gnc split: sum.splits)
        from add_candidate_inv[OF ac "1.prems"(3,4)] b' show ?thesis
          by (auto simp: capacity_inv_def later_stages_empty_def)
      next
        case False
        show ?thesis
        proof (cases "num_running b = 0")
          case True
          with "1.prems"(1) nf Nil act cap False obtain h1 b1 where
            fs: "finish_stage adv (h, b) = Inr (h1, b1)"
            and rec: "get_next_candidate adv fresh (h1, b1) = Inr (r, h', b')"
            by (auto simp: gnc split: sum.splits)
          from finish_stage_inv[OF fs "1.prems"(2,3,4)]
          have inv1: "capacity_inv b1" "later_stages_empty b1"
            "num_candidates b1 = num_candidates b" by simp_all
          from "1.hyps"[OF nf Nil act cap False True fs refl rec] inv1 "1.prems"(2)
          show ?thesis by simp
        next
          case False
          with "1.prems" nf Nil act cap \<open>\<not> act < cap\<close> show ?thesis
            by (auto simp: gnc)
        qed
      qed
    qed
  qed
qed

lemma distinct_argsort: "distinct (argsort xs)"
  by (simp add: argsort_def)

lemma num_true_below:
  assumes "distinct rs"
  shows "num_true (map (\<lambda>r. real r < t) rs) \<le> nat \<lceil>t\<rceil>"
proof -
  let ?f = "filter (\<lambda>r. real r < t) rs"
  have "num_true (map (\<lambda>r. real r < t) rs) = length ?f"
    by (simp add: num_true_def length_filter_map comp_def)
  also have "\<dots> = card (set ?f)"
    using assms distinct_card[of ?f] by simp
  also have "\<dots> \<le> card {..<nat \<lceil>t\<rceil>}"
  proof (rule card_mono)
    show "set ?f \<subseteq> {..<nat \<lceil>t\<rceil>}"
    proof
      fix r assume "r \<in> set ?f"
      then have "real r < t" by simp
      then have "int r < \<lceil>t\<rceil>" by linarith
      then show "r \<in> {..<nat \<lceil>t\<rceil>}" by simp
    qed
  qed simp
  finally show ?thesis by simp
qed

lemma successive_resampling_within_capacity:
  assumes "\<forall>s<length ncs. 0 \<le> ncs ! s
             \<and> max (real_of_int m) (real_of_int (ncs ! s) * (1 - r)) \<le> real_of_int (ncs ! s)"
  shows "policy_within_capacity (successive_resampling m r) ncs"
  unfolding policy_within_capacity_def
proof (intro allI impI, elim conjE)
  fix b ls av
  assume nc: "num_candidates b = ncs" and st: "stage b < length ncs"
    and sr: "successive_resampling m r b ls = Inr av"
  let ?t = "max (real_of_int m) (real_of_int (ncs ! stage b) * (1 - r))"
  from sr nc st have av: "av = map (\<lambda>k. real k < ?t) (argsort (argsort (map the ls)))"
    by (auto simp: successive_resampling_def advance_to_next_stage_def py_index_def Let_def
             split: if_splits)
  have "num_true (take (length ls) av) = num_true av"
    by (simp add: av length_argsort)
  also have "\<dots> \<le> nat \<lceil>?t\<rceil>"
    unfolding av by (rule num_true_below[OF distinct_argsort])
  finally have "int (num_true (take (length ls) av)) \<le> int (nat \<lceil>?t\<rceil>)"
    by (rule iffD2[OF of_nat_le_iff])
  also from assms st have "\<dots> \<le> ncs ! stage b"
    by (simp add: ceiling_le_iff)
  finally show "int (num_true (take (length ls) av)) \<le> ncs ! stage b" .
qed

lemma new_BaseIteration_inv:
  "\<forall>n\<in>set ncs. 0 \<le> n \<Longrightarrow>
     capacity_inv (new_BaseIteration it ncs bs t) \<and> later_stages_empty (new_BaseIteration it ncs bs t)"
  by (simp add: capacity_inv_def later_stages_empty_def new_BaseIteration_def)

text \<open>
  C2 (amended). From a bracket that satisfies the capacity invariant and whose later
  stages are empty, every operation that returns (candidate creation,
  \<open>get_next_candidate\<close>, \<open>register_result\<close>, \<open>_finish_stage\<close>) leaves a bracket that
  satisfies both again, for every advancement policy that marks at most the next stage's
  capacity.
\<close>

theorem capacity_invariant_preserved:
  assumes pol: "policy_within_capacity adv (num_candidates b)"
    and cap: "capacity_inv b" and emp: "later_stages_empty b"
  shows "(\<forall>c h' b'. add_candidate fresh (h, b) = Inr (c, h', b')
            \<longrightarrow> capacity_inv b' \<and> later_stages_empty b')
       \<and> (\<forall>r h' b'. get_next_candidate adv fresh (h, b) = Inr (r, h', b')
            \<longrightarrow> capacity_inv b' \<and> later_stages_empty b')
       \<and> (\<forall>a h' b'. register_result (h, b) a = Inr (h', b')
            \<longrightarrow> capacity_inv b' \<and> later_stages_empty b')
       \<and> (\<forall>h' b'. finish_stage adv (h, b) = Inr (h', b')
            \<longrightarrow> capacity_inv b' \<and> later_stages_empty b')"
  using add_candidate_inv[OF _ cap emp] get_next_candidate_inv[OF _ pol cap emp]
        register_result_inv[OF _ cap emp] finish_stage_inv[OF _ pol cap emp]
  by blast

lemma ex_finish_stage:
  "finish_stage (successive_resampling 1 (1/2)) (ex_store, ex_bracket)
     = Inr (ex_advanced_store, ex_bracket\<lparr>stage := 1, actual_num_candidates := [2, 1]\<rparr>)"
  by (simp add: finish_stage_def review_candidates_def Let_def get_incumbent_def py_index_def
        successive_resampling_def advance_to_next_stage_def argsort_def ex_defs fun_eq_iff
        ex_advanced_store_def)

lemma ex_get_next_candidate:
  "get_next_candidate (successive_resampling 1 (1/2)) 2 (ex_store, ex_bracket)
     = Inr (Some 1, ex_advanced_store(1 := (ex_advanced_store 1)\<lparr>status := RUNNING\<rparr>),
            ex_bracket\<lparr>stage := 1, actual_num_candidates := [2, 1], num_running := 1\<rparr>)"
proof -
  let ?b1 = "ex_bracket\<lparr>stage := 1, actual_num_candidates := [2, 1]\<rparr>"
  have "get_next_candidate (successive_resampling 1 (1/2)) 2 (ex_store, ex_bracket)
          = get_next_candidate (successive_resampling 1 (1/2)) 2 (ex_advanced_store, ?b1)"
    by (rule gnc_next_stage[OF _ _ _ _ _ _ ex_finish_stage]) (simp_all add: ex_defs)
  also have "\<dots> = Inr (Some 1, ex_advanced_store(1 := (ex_advanced_store 1)\<lparr>status := RUNNING\<rparr>),
                        ?b1\<lparr>num_running := num_running ?b1 + 1\<rparr>)"
    by (rule gnc_queued[where k = "new_CandidateId 0 1" and rest = "[]"])
       (simp_all add: ex_defs ex_advanced_store_def)
  finally show ?thesis by (simp add: ex_defs)
qed

lemma ex_policy_within_capacity:
  "policy_within_capacity (successive_resampling 1 (1/2)) [2, 1]"
  by (rule successive_resampling_within_capacity) (simp add: less_Suc_eq numeral_2_eq_2)

lemma ex_bracket_inv: "capacity_inv ex_bracket \<and> later_stages_empty ex_bracket"
  by (simp add: capacity_inv_def later_stages_empty_def ex_defs less_Suc_eq numeral_2_eq_2)


theorem capacity_invariant_preserved_witness:
  "policy_within_capacity (successive_resampling 1 (1/2)) (num_candidates ex_bracket)
   \<and> capacity_inv ex_bracket \<and> later_stages_empty ex_bracket
   \<and> get_next_candidate (successive_resampling 1 (1/2)) 2 (ex_store, ex_bracket)
       = Inr (Some 1, ex_advanced_store(1 := (ex_advanced_store 1)\<lparr>status := RUNNING\<rparr>),
              ex_bracket\<lparr>stage := 1, actual_num_candidates := [2, 1], num_running := 1\<rparr>)
   \<and> capacity_inv (ex_bracket\<lparr>stage := 1, actual_num_candidates := [2, 1], num_running := 1\<rparr>)
   \<and> finish_stage (successive_resampling 1 (1/2)) (ex_store, ex_bracket)
       = Inr (ex_advanced_store, ex_bracket\<lparr>stage := 1, actual_num_candidates := [2, 1]\<rparr>)
   \<and> capacity_inv (ex_bracket\<lparr>stage := 1, actual_num_candidates := [2, 1]\<rparr>)
   \<and> register_result (ex_store, ex_bracket) 0
       = Inr (ex_store(0 := (ex_store 0)\<lparr>status := REVIEW\<rparr>),
              ex_bracket\<lparr>num_running := num_running ex_bracket - 1\<rparr>)
   \<and> capacity_inv (ex_bracket\<lparr>num_running := num_running ex_bracket - 1\<rparr>)
   \<and> capacity_inv (new_BaseIteration 0 [2, 1] [1, 3] None)
   \<and> later_stages_empty (new_BaseIteration 0 [2, 1] [1, 3] None)
   \<and> add_candidate 0 (\<lambda>_. new_CandidateStructure 1 None, new_BaseIteration 0 [2, 1] [1, 3] None)
       = Inr (0, (\<lambda>_. new_CandidateStructure 1 None)
                   (0 := (new_CandidateStructure 1 None)\<lparr>cs_id := Some (new_CandidateId 0 0)\<rparr>),
              (new_BaseIteration 0 [2, 1] [1, 3] None)
                \<lparr>data := [(new_CandidateId 0 0, 0)], actual_num_candidates := [1, 0]\<rparr>)
   \<and> capacity_inv ((new_BaseIteration 0 [2, 1] [1, 3] None)
                \<lparr>data := [(new_CandidateId 0 0, 0)], actual_num_candidates := [1, 0]\<rparr>)"
proof -
  let ?P = "successive_resampling 1 (1/2)"
  let ?nb = "new_BaseIteration 0 [2, 1] [1, 3] None"
  let ?h0 = "\<lambda>_::nat. new_CandidateStructure 1 None"
  have pol: "policy_within_capacity ?P (num_candidates ex_bracket)"
    using ex_policy_within_capacity by (simp add: ex_defs)
  have pol0: "policy_within_capacity ?P (num_candidates ?nb)"
    using ex_policy_within_capacity by (simp add: ex_defs)
  have inv: "capacity_inv ex_bracket" "later_stages_empty ex_bracket"
    using ex_bracket_inv by simp_all
  have inv0: "capacity_inv ?nb" "later_stages_empty ?nb"
    using new_BaseIteration_inv[of "[2, 1]" 0 "[1, 3]" None] by simp_all
  have rr: "register_result (ex_store, ex_bracket) 0
       = Inr (ex_store(0 := (ex_store 0)\<lparr>status := REVIEW\<rparr>),
              ex_bracket\<lparr>num_running := num_running ex_bracket - 1\<rparr>)"
    by (simp add: register_result_def ex_defs)
  have ac: "add_candidate 0 (?h0, ?nb)
       = Inr (0, ?h0(0 := (new_CandidateStructure 1 None)\<lparr>cs_id := Some (new_CandidateId 0 0)\<rparr>),
              ?nb\<lparr>data := [(new_CandidateId 0 0, 0)], actual_num_candidates := [1, 0]\<rparr>)"
    by (simp add: add_candidate_def py_index_def ex_defs Let_def fun_eq_iff)
  from capacity_invariant_preserved[OF pol inv, of 2 ex_store]
       capacity_invariant_preserved[OF pol0 inv0, of 0 ?h0]
       ex_get_next_candidate ex_finish_stage rr ac pol inv inv0
  show ?thesis by (simp del: One_nat_def)
qed


text \<open>
  C2 as stated fails: with \<open>min_samples_advance = 2\<close> the resampling policy advances
  both reviewed candidates into a stage of capacity 1, and \<open>_finish_stage\<close> counts both.
\<close>

theorem capacity_invariant_counterexample:
  "capacity_inv ex_bracket
   \<and> finish_stage (successive_resampling 2 (1/2)) (ex_store, ex_bracket)
       = Inr (ex_store(0 := (ex_store 0)\<lparr>status := QUEUED, budget := 3\<rparr>,
                       1 := (ex_store 1)\<lparr>status := QUEUED, budget := 3\<rparr>),
              ex_bracket\<lparr>stage := 1, actual_num_candidates := [2, 2]\<rparr>)
   \<and> actual_num_candidates (ex_bracket\<lparr>stage := 1, actual_num_candidates := [2, 2]\<rparr>) ! 1 = 2
   \<and> num_candidates (ex_bracket\<lparr>stage := 1, actual_num_candidates := [2, 2]\<rparr>) ! 1 = 1
   \<and> \<not> capacity_inv (ex_bracket\<lparr>stage := 1, actual_num_candidates := [2, 2]\<rparr>)"
proof -
  have fs: "finish_stage (successive_resampling 2 (1/2)) (ex_store, ex_bracket)
       = Inr (ex_store(0 := (ex_store 0)\<lparr>status := QUEUED, budget := 3\<rparr>,
                       1 := (ex_store 1)\<lparr>status := QUEUED, budget := 3\<rparr>),
              ex_bracket\<lparr>stage := 1, actual_num_candidates := [2, 2]\<rparr>)"
    by (simp add: finish_stage_def review_candidates_def Let_def get_incumbent_def py_index_def
        successive_resampling_def advance_to_next_stage_def argsort_def ex_defs fun_eq_iff)
  have "\<not> capacity_inv (ex_bracket\<lparr>stage := 1, actual_num_candidates := [2, 2]\<rparr>)"
    by (auto simp: capacity_inv_def ex_defs intro!: exI[of _ 1])
  with fs ex_bracket_inv show ?thesis by (simp add: ex_defs)
qed

subsection \<open>Candidate identities\<close>

lemma refill_state_reached:
  "drive (successive_resampling 1 (1/2))
     [Next 0, Next 1, Report 0 (ex_result (1/2)), Report 1 (ex_result (1/5)), Next 2]
     (\<lambda>_. new_CandidateStructure 1 None, new_BaseIteration 0 [2, 2] [1, 3] None)
   = Inr (refill_store, refill_bracket)"
proof -
  let ?P = "successive_resampling 1 (1/2)"
  let ?h0 = "\<lambda>_::nat. new_CandidateStructure 1 None"
  let ?b0 = "new_BaseIteration 0 [2, 2] [1, 3] None"
  let ?d1 = "[(new_CandidateId 0 0, 0::nat)]"
  let ?d2 = "[(new_CandidateId 0 0, 0::nat), (new_CandidateId 0 1, 1)]"
  let ?h1 = "?h0(0 := ex_candidate 0 RUNNING 1 [])"
  let ?b1 = "?b0\<lparr>data := ?d1, actual_num_candidates := [1, 0], num_running := 1\<rparr>"
  let ?h2 = "?h1(1 := ex_candidate 1 RUNNING 1 [])"
  let ?b2 = "?b0\<lparr>data := ?d2, actual_num_candidates := [2, 0], num_running := 2\<rparr>"
  let ?h3 = "?h0(0 := ex_candidate 0 REVIEW 1 [(1, [ex_result (1/2)])],
                 1 := ex_candidate 1 RUNNING 1 [])"
  let ?b3 = "?b0\<lparr>data := ?d2, actual_num_candidates := [2, 0], num_running := 1\<rparr>"
  let ?h4 = "?h0(0 := ex_candidate 0 REVIEW 1 [(1, [ex_result (1/2)])],
                 1 := ex_candidate 1 REVIEW 1 [(1, [ex_result (1/5)])])"
  let ?b4 = "?b0\<lparr>data := ?d2, actual_num_candidates := [2, 0], num_running := 0\<rparr>"
  let ?h5 = "?h0(0 := ex_candidate 0 TERMINATED 1 [(1, [ex_result (1/2)])],
                 1 := ex_candidate 1 QUEUED 3 [(1, [ex_result (1/5)])])"
  let ?b5 = "?b0\<lparr>data := ?d2, stage := 1, actual_num_candidates := [2, 1], num_running := 0\<rparr>"
  have s1: "get_next_candidate ?P 0 (?h0, ?b0) = Inr (Some 0, ?h1, ?b1)"
    by (subst gnc_fill[where c = 0 and hc = "?h0(0 := ex_candidate 0 QUEUED 1 [])"
          and bc = "?b0\<lparr>data := ?d1, actual_num_candidates := [1, 0]\<rparr>"])
       (simp_all add: add_candidate_def py_index_def Let_def refill_defs fun_eq_iff)
  have s2: "get_next_candidate ?P 1 (?h1, ?b1) = Inr (Some 1, ?h2, ?b2)"
    by (subst gnc_fill[where c = 1 and hc = "?h1(1 := ex_candidate 1 QUEUED 1 [])"
          and bc = "?b0\<lparr>data := ?d2, actual_num_candidates := [2, 0], num_running := 1\<rparr>"])
       (simp_all add: add_candidate_def py_index_def Let_def refill_defs fun_eq_iff)
  have s3: "register_result (?h2(0 := add_result (?h2 0) (ex_result (1/2)) None), ?b2) 0
              = Inr (?h3, ?b3)"
    by (simp add: register_result_def add_result_def refill_defs fun_eq_iff)
  have s4: "register_result (?h3(1 := add_result (?h3 1) (ex_result (1/5)) None), ?b3) 1
              = Inr (?h4, ?b4)"
    by (simp add: register_result_def add_result_def refill_defs fun_eq_iff)
  have fs: "finish_stage ?P (?h4, ?b4) = Inr (?h5, ?b5)"
    by (simp add: finish_stage_def review_candidates_def Let_def get_incumbent_def py_index_def
        successive_resampling_def advance_to_next_stage_def argsort_def refill_defs fun_eq_iff)
  have "get_next_candidate ?P 2 (?h4, ?b4) = get_next_candidate ?P 2 (?h5, ?b5)"
    by (rule gnc_next_stage[OF _ _ _ _ _ _ fs]) (simp_all add: refill_defs)
  also have "\<dots> = Inr (Some 1, ?h5(1 := (?h5 1)\<lparr>status := RUNNING\<rparr>),
                        ?b5\<lparr>num_running := num_running ?b5 + 1\<rparr>)"
    by (rule gnc_queued[where k = "new_CandidateId 0 1" and rest = "[]"])
       (simp_all add: refill_defs)
  also have "\<dots> = Inr (Some 1, refill_store, refill_bracket)"
    by (simp add: refill_defs fun_eq_iff)
  finally have s5: "get_next_candidate ?P 2 (?h4, ?b4) = Inr (Some 1, refill_store, refill_bracket)" .
  show ?thesis
    by (simp only: drive.simps s1 s2 s3 s4 s5 sum.case prod.case)
qed

text \<open>
  C9 fails on the code. \<open>_add_candidate\<close> builds the id from the bracket index and the
  filled counter of the current stage only. In the second stage that counter starts at
  the number of advanced candidates, so the first candidate created there receives an id
  that a stage-0 candidate already has, and the dict entry of that candidate (here the
  advanced, running one) is overwritten.
\<close>

theorem add_candidate_reuses_id:
  "drive (successive_resampling 1 (1/2))
     [Next 0, Next 1, Report 0 (ex_result (1/2)), Report 1 (ex_result (1/5)), Next 2]
     (\<lambda>_. new_CandidateStructure 1 None, new_BaseIteration 0 [2, 2] [1, 3] None)
     = Inr (refill_store, refill_bracket)
   \<and> map_of (data refill_bracket) (new_CandidateId 0 1) = Some 1
   \<and> status (refill_store 1) = RUNNING
   \<and> add_candidate 2 (refill_store, refill_bracket)
     = Inr (2, refill_store(2 := ex_candidate 1 QUEUED 3 []),
            refill_bracket\<lparr>data := [(new_CandidateId 0 0, 0), (new_CandidateId 0 1, 2)],
                           actual_num_candidates := [2, 2]\<rparr>)
   \<and> get_next_candidate (successive_resampling 1 (1/2)) 2 (refill_store, refill_bracket)
     = Inr (Some 2, refill_store(2 := ex_candidate 1 RUNNING 3 []),
            refill_bracket\<lparr>data := [(new_CandidateId 0 0, 0), (new_CandidateId 0 1, 2)],
                           actual_num_candidates := [2, 2], num_running := 2\<rparr>)"
proof -
  let ?b' = "refill_bracket\<lparr>data := [(new_CandidateId 0 0, 0), (new_CandidateId 0 1, 2)],
                           actual_num_candidates := [2, 2]\<rparr>"
  have ac: "add_candidate 2 (refill_store, refill_bracket)
     = Inr (2, refill_store(2 := ex_candidate 1 QUEUED 3 []), ?b')"
    by (simp add: add_candidate_def py_index_def Let_def refill_defs fun_eq_iff)
  have "get_next_candidate (successive_resampling 1 (1/2)) 2 (refill_store, refill_bracket)
     = Inr (Some 2, (refill_store(2 := ex_candidate 1 QUEUED 3 []))
                      (2 := ((refill_store(2 := ex_candidate 1 QUEUED 3 [])) 2)\<lparr>status := RUNNING\<rparr>),
            ?b'\<lparr>num_running := num_running ?b' + 1\<rparr>)"
    by (rule gnc_fill[OF _ _ _ _ _ ac]) (simp_all add: refill_defs)
  then have gn: "get_next_candidate (successive_resampling 1 (1/2)) 2 (refill_store, refill_bracket)
     = Inr (Some 2, refill_store(2 := ex_candidate 1 RUNNING 3 []),
            refill_bracket\<lparr>data := [(new_CandidateId 0 0, 0), (new_CandidateId 0 1, 2)],
                           actual_num_candidates := [2, 2], num_running := 2\<rparr>)"
    by (simp add: refill_defs fun_eq_iff)
  have "map_of (data refill_bracket) (new_CandidateId 0 1) = Some 1"
    "status (refill_store 1) = RUNNING"
    by (simp_all add: refill_defs)
  with refill_state_reached ac gn show ?thesis by simp
qed

subsection \<open>Completed candidates\<close>

text \<open>
  \<open>_finish_up\<close> is the only place that writes COMPLETED; when it returns, the bracket is
  finished and every candidate of its map is COMPLETED.
\<close>

lemma finish_up_loop_completes:
  "finish_up_loop xs h = Inr h' \<Longrightarrow> status (h a) = COMPLETED \<or> a \<in> snd ` set xs \<Longrightarrow>
     status (h' a) = COMPLETED"
proof (induction xs arbitrary: h)
  case Nil
  then show ?case by simp
next
  case (Cons x xs)
  obtain k' a' where x: "x = (k', a')" by (cases x)
  from Cons.prems(1) have rest:
    "finish_up_loop xs (h(a' := (h a')\<lparr>status := COMPLETED\<rparr>)) = Inr h'"
    unfolding x by (auto split: if_splits)
  from Cons.prems(2) have
    "status ((h(a' := (h a')\<lparr>status := COMPLETED\<rparr>)) a) = COMPLETED \<or> a \<in> snd ` set xs"
    unfolding x by auto
  from Cons.IH[OF rest this] show ?case .
qed

lemma finish_up_completes:
  assumes "finish_up (h, b) = Inr (h', b')" and "(k, a) \<in> set (data b)"
  shows "is_finished b' \<and> status (h' a) = COMPLETED"
proof -
  from assms(1) have l: "finish_up_loop (data b) h = Inr h'" and b': "b' = b\<lparr>is_finished := True\<rparr>"
    by (auto simp: finish_up_def split: sum.splits)
  from assms(2) have "a \<in> snd ` set (data b)" by force
  with finish_up_loop_completes[OF l] b' show ?thesis by simp
qed








subsection \<open>Result registration\<close>

text \<open>
  C3. \<open>register_result\<close> raises exactly when the bracket is finished, always
  \<open>RuntimeError\<close>; on an unfinished bracket it sets the status of the candidate it is
  given to REVIEW, decrements \<open>num_running\<close> by one, and leaves every other object of
  the store and every other field of the bracket and of the candidate as they were.
\<close>

theorem register_result_spec:
  "((\<exists>e. register_result (h, b) a = Inl e) \<longleftrightarrow> is_finished b)
   \<and> (\<forall>e. register_result (h, b) a = Inl e \<longrightarrow> e = RuntimeError)
   \<and> (\<not> is_finished b \<longrightarrow>
        (\<exists>h' b'. register_result (h, b) a = Inr (h', b')
           \<and> status (h' a) = REVIEW
           \<and> h' a = (h a)\<lparr>status := REVIEW\<rparr>
           \<and> (\<forall>a'. a' \<noteq> a \<longrightarrow> h' a' = h a')
           \<and> num_running b' = num_running b - 1
           \<and> b' = b\<lparr>num_running := num_running b - 1\<rparr>))"
  by (simp add: register_result_def)

theorem register_result_spec_witness:
  "register_result
     (\<lambda>_. new_CandidateStructure 1 None, new_BaseIteration 0 [1] [1] None\<lparr>num_running := 1\<rparr>) 0
   = Inr ((\<lambda>_. new_CandidateStructure 1 None)(0 := (new_CandidateStructure 1 None)\<lparr>status := REVIEW\<rparr>),
          new_BaseIteration 0 [1] [1] None\<lparr>num_running := 0\<rparr>)
   \<and> register_result
     (\<lambda>_. new_CandidateStructure 1 None, new_BaseIteration 0 [1] [1] None\<lparr>is_finished := True\<rparr>) 0
   = Inl RuntimeError"
  using register_result_spec
          [of "\<lambda>_. new_CandidateStructure 1 None"
              "new_BaseIteration 0 [1] [1] None\<lparr>num_running := 1\<rparr>" 0]
        register_result_spec
          [of "\<lambda>_. new_CandidateStructure 1 None"
              "new_BaseIteration 0 [1] [1] None\<lparr>is_finished := True\<rparr>" 0]
  by (auto simp: new_BaseIteration_def new_CandidateStructure_def fun_eq_iff)

section \<open>Properties of the successive-resampling policy\<close>







lemma before_trans: "before xs a b \<Longrightarrow> before xs b c \<Longrightarrow> before xs a c"
  by (auto simp: before_def)












section \<open>Properties of the config cache\<close>

lemma cache_inv_new: "cache_inv new_ConfigGeneratorCache"
  by (simp add: cache_inv_def new_ConfigGeneratorCache_def)

lemma get_hit:
  "map_of (cache st) (configuration_space p) = Some c \<Longrightarrow> get clazz st p = Inr (c, st)"
  by (simp add: get_def)

lemma get_miss:
  "map_of (cache st) (configuration_space p) = None \<Longrightarrow> clazz (configuration_space p) p = Inr g \<Longrightarrow>
   get clazz st p = Inr (length (constructed st),
      st\<lparr>cache := AList.update (configuration_space p) (length (constructed st)) (cache st),
         constructed := constructed st @ [(configuration_space p, g)]\<rparr>)"
  by (simp add: get_def Let_def)

lemma get_miss_raises:
  "map_of (cache st) (configuration_space p) = None \<Longrightarrow> clazz (configuration_space p) p = Inl e \<Longrightarrow>
   get clazz st p = Inl e"
  by (simp add: get_def)

lemma cache_inv_lookup:
  "cache_inv st \<Longrightarrow> map_of (cache st) k = Some c \<Longrightarrow>
     c < length (constructed st) \<and> fst (constructed st ! c) = k"
  unfolding cache_inv_def by blast

lemma cache_inv_member:
  "cache_inv st \<Longrightarrow> c < length (constructed st) \<Longrightarrow>
     map_of (cache st) (fst (constructed st ! c)) = Some c"
  unfolding cache_inv_def by blast


lemma cache_inv_fresh:
  assumes "cache_inv st" and "map_of (cache st) k = None"
  shows "k \<notin> fst ` set (constructed st)"
proof
  assume "k \<in> fst ` set (constructed st)"
  then obtain i where "i < length (constructed st)" "fst (constructed st ! i) = k"
    by (auto simp: in_set_conv_nth)
  with cache_inv_member[OF assms(1), of i] assms(2) show False by simp
qed

lemma cache_inv_insert:
  assumes inv: "cache_inv st" and none: "map_of (cache st) k = None"
  shows "cache_inv (st\<lparr>cache := AList.update k (length (constructed st)) (cache st),
                        constructed := constructed st @ [(k, g)]\<rparr>)"
proof -
  note fresh = cache_inv_fresh[OF inv none]
  have d: "distinct (map fst (constructed st @ [(k, g)]))"
    using inv fresh by (simp add: cache_inv_def)
  have "(map_of (AList.update k (length (constructed st)) (cache st)) k' = Some c)
        = (c < length (constructed st @ [(k, g)]) \<and> fst ((constructed st @ [(k, g)]) ! c) = k')"
    for k' c
  proof (cases "c < length (constructed st)")
    case True
    from cache_inv_member[OF inv True] none have ne: "fst (constructed st ! c) \<noteq> k" by auto
    show ?thesis
    proof (cases "k' = k")
      case True
      with \<open>c < length (constructed st)\<close> ne show ?thesis
        by (simp add: update_conv' nth_append)
    next
      case False
      have "(map_of (cache st) k' = Some c) = (fst (constructed st ! c) = k')"
        using cache_inv_member[OF inv True] cache_inv_lookup[OF inv, of k' c] by auto
      with False True show ?thesis
        by (simp add: update_conv' nth_append)
    qed
  next
    case False
    have "map_of (cache st) k' \<noteq> Some c"
      using cache_inv_lookup[OF inv, of k' c] False by auto
    with False show ?thesis
      by (auto simp: update_conv' nth_append less_Suc_eq)
  qed
  with d show ?thesis by (simp add: cache_inv_def)
qed


lemma get_result:
  assumes inv: "cache_inv st" and g: "get clazz st p = Inr (cg, st1)"
  shows "cache_inv st1 \<and> (\<exists>ext. constructed st1 = constructed st @ ext)
         \<and> cg < length (constructed st1) \<and> fst (constructed st1 ! cg) = configuration_space p"
proof (cases "map_of (cache st) (configuration_space p)")
  case (Some c)
  note e = trans[OF g[symmetric] get_hit[where clazz = clazz, OF Some], unfolded sum.inject prod.inject]
  note cg = e[THEN conjunct1] and st1 = e[THEN conjunct2]
  from cache_inv_lookup[OF inv Some] inv show ?thesis
    unfolding cg st1 by (intro conjI exI[of _ "[]"]) simp_all
next
  case None
  show ?thesis
  proof (cases "clazz (configuration_space p) p")
    case (Inl e)
    from g get_miss_raises[where clazz = clazz and st = st and p = p, OF None Inl] show ?thesis by simp
  next
    case (Inr gen)
    note e = trans[OF g[symmetric] get_miss[where clazz = clazz and st = st and p = p, OF None Inr],
                   unfolded sum.inject prod.inject]
    note cg = e[THEN conjunct1] and st1 = e[THEN conjunct2]
    from cache_inv_insert[OF inv None, of gen] show ?thesis
      unfolding cg st1 by (intro conjI exI[of _ "[(configuration_space p, gen)]"]) simp_all
  qed
qed

lemma get_all_spec:
  "cache_inv st \<Longrightarrow> get_all clazz st ps = (rs, st') \<Longrightarrow>
     cache_inv st' \<and> (\<exists>ext. constructed st' = constructed st @ ext)
     \<and> length rs = length ps
     \<and> (\<forall>i<length ps. \<forall>cg. rs ! i = Inr cg \<longrightarrow>
           cg < length (constructed st') \<and> fst (constructed st' ! cg) = configuration_space (ps ! i))"
proof (induction ps arbitrary: st rs)
  case Nil
  then show ?case by simp
next
  case (Cons p ps)
  show ?case
  proof (cases "get clazz st p")
    case (Inl e)
    with Cons.prems(2) obtain rs' where ga: "get_all clazz st ps = (rs', st')" and rs: "rs = Inl e # rs'"
      by (auto split: prod.splits)
    from Cons.IH[OF Cons.prems(1) ga] show ?thesis
      unfolding rs by (auto simp: nth_Cons split: nat.splits)
  next
    case (Inr y)
    obtain cg st1 where y: "y = (cg, st1)" by (cases y)
    from Inr y have g: "get clazz st p = Inr (cg, st1)" by simp
    with Cons.prems(2) obtain rs' where ga: "get_all clazz st1 ps = (rs', st')" and rs: "rs = Inr cg # rs'"
      by (auto split: prod.splits)
    from get_result[OF Cons.prems(1) g] obtain ext1 where
      inv1: "cache_inv st1" and ext1: "constructed st1 = constructed st @ ext1"
      and cg: "cg < length (constructed st1)" "fst (constructed st1 ! cg) = configuration_space p"
      by blast
    from Cons.IH[OF inv1 ga] obtain ext2 where
      inv': "cache_inv st'" and ext2: "constructed st' = constructed st1 @ ext2"
      and len: "length rs' = length ps"
      and el: "\<forall>i<length ps. \<forall>c. rs' ! i = Inr c \<longrightarrow>
           c < length (constructed st') \<and> fst (constructed st' ! c) = configuration_space (ps ! i)"
      by blast
    from cg ext2 have cg': "cg < length (constructed st')"
      "fst (constructed st' ! cg) = configuration_space p"
      by (simp_all add: nth_append)
    have "\<exists>ext. constructed st' = constructed st @ ext"
      using ext1 ext2 by simp
    moreover have "\<forall>i<length (p # ps). \<forall>c. rs ! i = Inr c \<longrightarrow>
           c < length (constructed st') \<and> fst (constructed st' ! c) = configuration_space ((p # ps) ! i)"
      using cg' el unfolding rs by (auto simp: nth_Cons split: nat.splits)
    ultimately show ?thesis using inv' len rs by simp
  qed
qed


lemma at_most_one_per_key:
  "distinct (map f xs) \<Longrightarrow> length (filter (\<lambda>x. f x = k) xs) \<le> 1"
proof (induction xs)
  case Nil
  then show ?case by simp
next
  case (Cons x xs)
  show ?case
  proof (cases "f x = k")
    case True
    from Cons.prems have "f x \<notin> f ` set xs" by simp
    with True have "\<forall>y\<in>set xs. f y \<noteq> k" by blast
    then have "filter (\<lambda>y. f y = k) xs = []"
      by (simp add: filter_empty_conv)
    with True show ?thesis by simp
  next
    case False
    with Cons show ?thesis by simp
  qed
qed

lemma get_again:
  assumes "get clazz st p = Inr (a, st1)" and "configuration_space p' = configuration_space p"
  shows "get clazz st1 p' = Inr (a, st1)"
proof (cases "map_of (cache st) (configuration_space p)")
  case (Some c)
  note e = trans[OF assms(1)[symmetric] get_hit[where clazz = clazz, OF Some],
                 unfolded sum.inject prod.inject]
  from Some show ?thesis
    unfolding e[THEN conjunct1] e[THEN conjunct2]
    by (intro get_hit) (simp add: assms(2))
next
  case None
  show ?thesis
  proof (cases "clazz (configuration_space p) p")
    case (Inl e)
    from assms(1) get_miss_raises[where clazz = clazz and st = st and p = p, OF None Inl]
    show ?thesis by simp
  next
    case (Inr gen)
    note e = trans[OF assms(1)[symmetric]
                      get_miss[where clazz = clazz and st = st and p = p, OF None Inr],
                   unfolded sum.inject prod.inject]
    show ?thesis
      unfolding e[THEN conjunct1] e[THEN conjunct2]
      by (intro get_hit) (simp add: assms(2) update_conv')
  qed
qed


text \<open>
  C4. For every sequence of \<open>get\<close> calls on a new cache: at most one instance is
  constructed for each search space; any two calls with the same search space that
  return, return the same instance; and a \<open>get\<close> that follows a returning \<open>get\<close> for the
  same search space returns the same instance and leaves the cache, and the list of
  constructed instances, unchanged. The calls of a sequence run one after the other;
  interleaved execution of two calls is not part of the model.
\<close>

theorem config_cache_get_or_create:
  assumes run: "get_all clazz new_ConfigGeneratorCache ps = (rs, st')"
  shows "(\<forall>k. length (filter (\<lambda>(k', g). k' = k) (constructed st')) \<le> 1)
       \<and> (\<forall>i<length ps. \<forall>j<length ps. \<forall>a b.
             configuration_space (ps ! i) = configuration_space (ps ! j)
             \<and> rs ! i = Inr a \<and> rs ! j = Inr b \<longrightarrow> a = b)
       \<and> (\<forall>st p p' a st1.
             get clazz st p = Inr (a, st1) \<and> configuration_space p' = configuration_space p
             \<longrightarrow> get clazz st1 p' = Inr (a, st1))"
proof -
  from get_all_spec[OF cache_inv_new run] have
    d: "distinct (map fst (constructed st'))"
    and el: "\<And>i cg. i < length ps \<Longrightarrow> rs ! i = Inr cg \<Longrightarrow>
           cg < length (constructed st') \<and> fst (constructed st' ! cg) = configuration_space (ps ! i)"
    by (simp_all add: cache_inv_def)
  have c1: "\<forall>k. length (filter (\<lambda>(k', g). k' = k) (constructed st')) \<le> 1"
  proof
    fix k
    from at_most_one_per_key[OF d, of k]
    show "length (filter (\<lambda>(k', g). k' = k) (constructed st')) \<le> 1"
      by (simp add: case_prod_unfold)
  qed
  have c2: "\<forall>i<length ps. \<forall>j<length ps. \<forall>a b.
             configuration_space (ps ! i) = configuration_space (ps ! j)
             \<and> rs ! i = Inr a \<and> rs ! j = Inr b \<longrightarrow> a = b"
  proof (intro allI impI)
    fix i j a b
    assume i: "i < length ps" and j: "j < length ps"
      and h: "configuration_space (ps ! i) = configuration_space (ps ! j)
             \<and> rs ! i = Inr a \<and> rs ! j = Inr b"
    from el[OF i, of a] el[OF j, of b] h have
      "a < length (map fst (constructed st'))" "b < length (map fst (constructed st'))"
      "map fst (constructed st') ! a = map fst (constructed st') ! b"
      by simp_all
    with d show "a = b" using nth_eq_iff_index_eq[of "map fst (constructed st')" a b] by blast
  qed
  have c3: "\<forall>st p p' a st1.
             get clazz st p = Inr (a, st1) \<and> configuration_space p' = configuration_space p
             \<longrightarrow> get clazz st1 p' = Inr (a, st1)"
    using get_again[where clazz = clazz] by blast
  from c1 c2 c3 show ?thesis by (intro conjI)
qed

theorem config_cache_get_or_create_witness:
  "get_all (\<lambda>k p. Inr k) new_ConfigGeneratorCache [key_pipeline 7, key_pipeline 8, key_pipeline 7]
     = ([Inr 0, Inr 1, Inr 0], \<lparr>cache = [(7, 0), (8, 1)], constructed = [(7, 7), (8, 8)]\<rparr>)
   \<and> length (filter (\<lambda>(k', g). k' = 7) [(7 :: nat, 7 :: nat), (8, 8)]) \<le> 1
   \<and> get (\<lambda>k p. Inr k) \<lparr>cache = [(7, 0), (8, 1)], constructed = [(7, 7), (8, 8)]\<rparr> (key_pipeline 8)
       = Inr (1, \<lparr>cache = [(7, 0), (8, 1)], constructed = [(7, 7), (8, 8)]\<rparr>)"
proof -
  have run: "get_all (\<lambda>k p. Inr k) new_ConfigGeneratorCache
               [key_pipeline 7, key_pipeline 8, key_pipeline 7]
     = ([Inr 0, Inr 1, Inr 0],
        \<lparr>cache = [(7, 0), (8, 1)], constructed = [(7::nat, 7::nat), (8, 8)]\<rparr>)"
    by (simp add: get_def new_ConfigGeneratorCache_def key_pipeline_def)
  have g: "get (\<lambda>k p. Inr k) \<lparr>cache = [(7, 0), (8, 1)], constructed = [(7::nat, 7::nat), (8, 8)]\<rparr>
              (key_pipeline 8)
       = Inr (1, \<lparr>cache = [(7, 0), (8, 1)], constructed = [(7, 7), (8, 8)]\<rparr>)"
    by (simp add: get_def key_pipeline_def)
  from config_cache_get_or_create[OF run]
  have "\<forall>k. length (filter (\<lambda>(k', g). k' = k)
            (constructed \<lparr>cache = [(7, 0), (8, 1)], constructed = [(7::nat, 7::nat), (8, 8)]\<rparr>)) \<le> 1"
    by (rule conjunct1)
  then have "length (filter (\<lambda>(k', g). k' = 7)
            (constructed \<lparr>cache = [(7, 0), (8, 1)], constructed = [(7::nat, 7::nat), (8, 8)]\<rparr>)) \<le> 1"
    by (rule spec)
  then have "length (filter (\<lambda>(k', g). k' = 7) [(7 :: nat, 7 :: nat), (8, 8)]) \<le> 1"
    by simp
  with run g show ?thesis by simp
qed

section \<open>Properties of the run history\<close>

subsection \<open>Loading the logs\<close>

lemma load_results_spec:
  "load_results ress (dat, bs, tref) = Inr (dat', bs', tref') \<Longrightarrow>
     set bs' = set bs \<union> rl_budget ` set ress
     \<and> (distinct bs \<longrightarrow> distinct bs')
     \<and> (ress = [] \<longrightarrow> tref' = tref)
     \<and> (ress \<noteq> [] \<longrightarrow>
           tref' = Some (Min (seen tref \<union> (\<lambda>l. submitted (rl_time_stamps l)) ` set ress)))
     \<and> fst ` set dat' = fst ` set dat"
proof (induction ress arbitrary: dat bs tref)
  case Nil
  then show ?case by simp
next
  case (Cons line rest)
  let ?b = "rl_budget line"
  let ?s = "submitted (rl_time_stamps line)"
  let ?t1 = "Some (case tref of None \<Rightarrow> ?s | Some t \<Rightarrow> min t ?s)"
  from Cons.prems obtain d where d: "map_of dat (ConfigId (rl_config_id line)) = Some d"
    by (auto simp: Let_def split: option.splits)
  define dat1 where "dat1 = AList.update (ConfigId (rl_config_id line))
     (d\<lparr>datum_time_stamps := AList.update ?b (rl_time_stamps line) (datum_time_stamps d),
        datum_results :=
          AList.update ?b (case rl_result line of None \<Rightarrow> NoResult | Some x \<Rightarrow> LossValue x)
            (datum_results d),
        datum_exceptions := AList.update ?b (rl_exception line) (datum_exceptions d)\<rparr>) dat"
  from Cons.prems d have rec:
    "load_results rest (dat1, List.insert ?b bs, ?t1) = Inr (dat', bs', tref')"
    by (simp add: Let_def dat1_def)
  from map_of_SomeD[OF d] have "ConfigId (rl_config_id line) \<in> fst ` set dat" by force
  then have dat1: "fst ` set dat1 = fst ` set dat"
    by (auto simp: dat1_def dom_update)
  note ih = Cons.IH[OF rec]
  have seen1: "seen ?t1 = {Min (seen tref \<union> {?s})}"
    by (cases tref) (simp_all add: seen_def min.commute)
  have t': "tref' = Some (Min (seen tref \<union> (\<lambda>l. submitted (rl_time_stamps l)) ` set (line # rest)))"
  proof (cases "rest = []")
    case True
    with ih seen1 show ?thesis by (cases tref) (simp_all add: seen_def min.commute)
  next
    case False
    let ?R = "(\<lambda>l. submitted (rl_time_stamps l)) ` set rest"
    from False have ne: "?R \<noteq> {}" by simp
    from ih False have "tref' = Some (Min (seen ?t1 \<union> ?R))" by simp
    also have "Min (seen ?t1 \<union> ?R) = Min (seen tref \<union> insert ?s ?R)"
    proof (cases tref)
      case None
      with ne show ?thesis by (simp add: seen_def)
    next
      case (Some t)
      with ne show ?thesis
        by (simp add: seen_def min.assoc insert_commute)
    qed
    finally show ?thesis by simp
  qed
  from ih t' dat1 show ?case by auto
qed

lemma sorted_distinct_first_two:
  fixes xs :: "'a::linorder list"
  assumes "sorted xs" "distinct xs" "2 \<le> length xs"
  shows "xs ! 0 = Min (set xs) \<and> xs ! 1 = Min (set xs - {Min (set xs)})"
proof -
  from assms(3) obtain a b rest where xs: "xs = a # b # rest"
    by (cases xs; cases "tl xs") auto
  from assms(1) have a: "\<forall>y\<in>set (b # rest). a \<le> y" and b: "\<forall>y\<in>set rest. b \<le> y"
    unfolding xs by auto
  have ma: "Min (set xs) = a"
    unfolding xs using a by (intro Min_eqI) auto
  from assms(2) have "set xs - {a} = set (b # rest)"
    unfolding xs by auto
  moreover have "Min (set (b # rest)) = b"
    using b by (intro Min_eqI) auto
  ultimately show ?thesis
    unfolding ma by (simp add: xs)
qed

lemma load_results_succeeds:
  "(\<forall>l\<in>set ress. ConfigId (rl_config_id l) \<in> fst ` set dat)
     \<longleftrightarrow> (\<exists>r. load_results ress (dat, bs, tref) = Inr r)"
proof (induction ress arbitrary: dat bs tref)
  case Nil
  then show ?case by simp
next
  case (Cons line rest)
  show ?case
  proof (cases "map_of dat (ConfigId (rl_config_id line))")
    case None
    then have "ConfigId (rl_config_id line) \<notin> fst ` set dat"
      by (simp add: map_of_eq_None_iff)
    with None show ?thesis by (simp add: Let_def)
  next
    case (Some d)
    from map_of_SomeD[OF Some] have k: "ConfigId (rl_config_id line) \<in> fst ` set dat" by force
    then have "fst ` set (AList.update (ConfigId (rl_config_id line)) v dat) = fst ` set dat" for v
      by (auto simp: dom_update)
    with Cons.IH k Some show ?thesis
      by (simp add: Let_def)
  qed
qed

lemma ConfigId_inj: "ConfigId s = ConfigId t \<longleftrightarrow> s = t"
  by (cases s; cases t) (simp add: ConfigId_def)

lemma configs_loaded:
  "fst ` set (fold (\<lambda>c d. AList.update (ConfigId c) new_Datum d) cfgs acc)
     = fst ` set acc \<union> ConfigId ` set cfgs"
  by (induction cfgs arbitrary: acc) (auto simp: dom_update)


text \<open>
  C7. Whenever loading returns a history, its metadata come from the result records
  alone: \<open>min_budget\<close> and \<open>max_budget\<close> are the smallest and largest observed budget,
  \<open>time_ref\<close> is the earliest \<open>submitted\<close> timestamp, and \<open>eta\<close> is the second-smallest
  distinct budget divided by the smallest when at least two distinct budgets occur and
  undefined otherwise. Loading returns exactly when there is a result record, every result
  record names an id of the configs log, and the smallest of two or more budgets is not 0.
\<close>

theorem loaded_metadata:
  "(\<forall>rh. logged_results_to_runhistory cfgs ress = Inr rh \<longrightarrow>
      ress \<noteq> []
      \<and> min_budget (HB_config rh) = Min (rl_budget ` set ress)
      \<and> max_budget (HB_config rh) = Max (rl_budget ` set ress)
      \<and> time_ref (HB_config rh) = Min ((\<lambda>l. submitted (rl_time_stamps l)) ` set ress)
      \<and> eta (HB_config rh)
          = (if 2 \<le> card (rl_budget ` set ress)
             then Some (Min (rl_budget ` set ress - {Min (rl_budget ` set ress)})
                        / Min (rl_budget ` set ress))
             else None))
   \<and> ((\<exists>rh. logged_results_to_runhistory cfgs ress = Inr rh) \<longleftrightarrow>
        ress \<noteq> [] \<and> (\<forall>l\<in>set ress. rl_config_id l \<in> set cfgs)
        \<and> \<not> (2 \<le> card (rl_budget ` set ress) \<and> Min (rl_budget ` set ress) = 0))"
proof -
  let ?B = "rl_budget ` set ress"
  let ?data0 = "fold (\<lambda>c d. AList.update (ConfigId c) new_Datum d) cfgs []"
  have ids: "(\<forall>l\<in>set ress. ConfigId (rl_config_id l) \<in> fst ` set ?data0)
               \<longleftrightarrow> (\<forall>l\<in>set ress. rl_config_id l \<in> set cfgs)"
    by (auto simp: configs_loaded ConfigId_inj)
  show ?thesis
  proof (cases "load_results ress (?data0, [], None)")
    case (Inl e)
    with load_results_succeeds[of ress ?data0 "[]" None] ids show ?thesis
      by (auto simp: logged_results_to_runhistory_def Let_def)
  next
    case (Inr y)
    obtain dat bs tref where y: "y = (dat, bs, tref)" by (cases y)
    from Inr y have lr: "load_results ress (?data0, [], None) = Inr (dat, bs, tref)" by simp
    from load_results_spec[OF lr] have bs: "set bs = ?B" "distinct bs"
      and tref: "ress \<noteq> [] \<Longrightarrow>
                 tref = Some (Min ((\<lambda>l. submitted (rl_time_stamps l)) ` set ress))"
      by (simp_all add: seen_def)
    have idok: "\<forall>l\<in>set ress. rl_config_id l \<in> set cfgs"
      using load_results_succeeds[of ress ?data0 "[]" None] lr ids by auto
    have empty: "bs = [] \<longleftrightarrow> ress = []" using bs(1) by auto
    have len: "length (sort bs) = card ?B"
      using bs by (simp add: distinct_card[symmetric])
    have first: "2 \<le> card ?B \<Longrightarrow> sort bs ! 0 = Min ?B \<and> sort bs ! 1 = Min (?B - {Min ?B})"
      using sorted_distinct_first_two[of "sort bs"] bs len by simp
    show ?thesis
    proof (cases "ress = []")
      case True
      with lr empty show ?thesis
        by (simp add: logged_results_to_runhistory_def Let_def)
    next
      case False
      show ?thesis
      proof (cases "2 \<le> card ?B")
        case True
        with first have f: "sort bs ! 0 = Min ?B" "sort bs ! 1 = Min (?B - {Min ?B})" by simp_all
        from True len have l2: "\<not> length (sort bs) < 2" by simp
        from False lr empty tref idok True f l2 bs show ?thesis
          by (auto simp: logged_results_to_runhistory_def Let_def new_RunHistory_def
              simp del: length_sort)
      next
        case c: False
        with len have l2: "length (sort bs) < 2" by simp
        from False lr empty tref idok c l2 bs show ?thesis
          by (auto simp: logged_results_to_runhistory_def Let_def new_RunHistory_def
              simp del: length_sort)
      qed
    qed
  qed
qed

lemma tie_history_loaded:
  "logged_results_to_runhistory [(0, 0, 0), (0, 1, 0)] tie_log = Inr tie_history"
  by (simp add: logged_results_to_runhistory_def tie_log_def tie_history_def ConfigId_def
        new_Datum_def new_RunHistory_def merge_results_def dict_update_def rebase_def ts_def
        Let_def)

lemma plain_history_loaded:
  "logged_results_to_runhistory [(0, 0, 0), (0, 1, 0)] plain_log = Inr plain_history"
  by (simp add: logged_results_to_runhistory_def plain_log_def plain_history_def ConfigId_def
        new_Datum_def new_RunHistory_def merge_results_def dict_update_def rebase_def ts_def
        Let_def)


theorem loaded_metadata_witness:
  "logged_results_to_runhistory [(0, 0, 0), (0, 1, 0)] plain_log = Inr plain_history
   \<and> plain_log \<noteq> []
   \<and> rl_budget ` set plain_log = {1, 3}
   \<and> (\<lambda>l. submitted (rl_time_stamps l)) ` set plain_log = {10, 12}
   \<and> eta (HB_config plain_history) = Some (3 / 1)
   \<and> min_budget (HB_config plain_history) = 1
   \<and> max_budget (HB_config plain_history) = 3
   \<and> time_ref (HB_config plain_history) = 10"
proof -
  have B: "rl_budget ` set plain_log = {1, 3}"
    and S: "(\<lambda>l. submitted (rl_time_stamps l)) ` set plain_log = {10, 12}"
    by (auto simp: plain_log_def ts_def)
  have c: "card {1, 3 :: real} = 2" by simp
  have d: "{1, 3 :: real} - {1} = {3}" by auto
  from loaded_metadata[of "[(0, 0, 0), (0, 1, 0)]" plain_log] plain_history_loaded
  have "eta (HB_config plain_history) = Some (3 / 1)
        \<and> min_budget (HB_config plain_history) = 1
        \<and> max_budget (HB_config plain_history) = 3
        \<and> time_ref (HB_config plain_history) = 10"
    by (simp add: B S c d)
  with plain_history_loaded B S show ?thesis by (simp add: plain_log_def)
qed


subsection \<open>A loaded history holds bare losses\<close>

text \<open>
  The loader stores the number (or null) of each result line, so no history that it
  returns holds a result object, and \<open>get_incumbent_id\<close> can only raise or find
  nothing: it never returns an id for a loaded history.
\<close>

lemma set_dict_update: "set (AList.update k v al) \<subseteq> insert (k, v) (set al)"
  by (induction al) auto

lemma all_values_update:
  "\<forall>(b, v)\<in>set al. P v \<Longrightarrow> P v0 \<Longrightarrow> \<forall>(b, v)\<in>set (AList.update k v0 al). P v"
  by (induction al) auto

lemma bare_losses_update:
  assumes "bare_losses dat" and "\<forall>(b, v)\<in>set (datum_results d). \<forall>l. v \<noteq> ResultObject l"
  shows "bare_losses (AList.update k d dat)"
  using assms set_dict_update[of k d dat]
  unfolding bare_losses_def by blast

lemma bare_losses_configs:
  "bare_losses acc \<Longrightarrow> bare_losses (fold (\<lambda>c d. AList.update (ConfigId c) new_Datum d) cfgs acc)"
  by (induction cfgs arbitrary: acc) (simp_all add: bare_losses_update new_Datum_def)

lemma bare_losses_load_results:
  "load_results ress (dat, bs, tref) = Inr (dat', bs', tref') \<Longrightarrow> bare_losses dat \<Longrightarrow>
     bare_losses dat'"
proof (induction ress arbitrary: dat bs tref)
  case Nil
  then show ?case by simp
next
  case (Cons line rest)
  from Cons.prems(1) obtain d where d: "map_of dat (ConfigId (rl_config_id line)) = Some d"
    by (auto simp: Let_def split: option.splits)
  let ?v = "case rl_result line of None \<Rightarrow> NoResult | Some x \<Rightarrow> LossValue x"
  let ?d' = "d\<lparr>datum_time_stamps :=
                  AList.update (rl_budget line) (rl_time_stamps line) (datum_time_stamps d),
               datum_results := AList.update (rl_budget line) ?v (datum_results d),
               datum_exceptions :=
                  AList.update (rl_budget line) (rl_exception line) (datum_exceptions d)\<rparr>"
  from map_of_SomeD[OF d] Cons.prems(2)
  have old: "\<forall>(b, v)\<in>set (datum_results d). \<forall>l. v \<noteq> ResultObject l"
    unfolding bare_losses_def by blast
  have new: "\<forall>l. ?v \<noteq> ResultObject l" by (simp split: option.splits)
  have r: "datum_results ?d' = AList.update (rl_budget line) ?v (datum_results d)" by simp
  have "\<forall>(b, v)\<in>set (datum_results ?d'). \<forall>l. v \<noteq> ResultObject l"
    unfolding r by (rule all_values_update[OF old new])
  from bare_losses_update[OF Cons.prems(2) this]
  have inv: "bare_losses (AList.update (ConfigId (rl_config_id line)) ?d' dat)" .
  from Cons.prems(1) d have
    "load_results rest (AList.update (ConfigId (rl_config_id line)) ?d' dat,
        List.insert (rl_budget line) bs,
        Some (case tref of None \<Rightarrow> submitted (rl_time_stamps line)
              | Some t \<Rightarrow> min t (submitted (rl_time_stamps line))))
     = Inr (dat', bs', tref')"
    by (simp add: Let_def)
  from Cons.IH[OF this inv] show ?case .
qed

lemma bare_losses_dict_update:
  "bare_losses acc \<Longrightarrow> bare_losses it \<Longrightarrow> bare_losses (dict_update acc it)"
  unfolding dict_update_def
proof (induction it arbitrary: acc)
  case Nil
  then show ?case by simp
next
  case (Cons x it)
  obtain k d where x: "x = (k, d)" by (cases x)
  from Cons.prems(2) have d: "\<forall>(b, v)\<in>set (datum_results d). \<forall>l. v \<noteq> ResultObject l"
    and it: "bare_losses it"
    unfolding x bare_losses_def by auto
  from Cons.IH[OF bare_losses_update[OF Cons.prems(1) d] it] show ?case
    unfolding x by simp
qed

lemma bare_losses_merge:
  "bare_losses dat \<Longrightarrow> bare_losses (merge_results t [dat])"
proof -
  assume "bare_losses dat"
  then have "bare_losses (dict_update [] dat)"
    by (intro bare_losses_dict_update) (simp_all add: bare_losses_def)
  then show ?thesis
    unfolding merge_results_def bare_losses_def by (auto simp: case_prod_unfold)
qed

lemma incumbent_candidates_bare:
  "bare_losses dat \<Longrightarrow>
     incumbent_candidates mb dat = Inl AttributeError \<or> incumbent_candidates mb dat = Inr []"
proof (induction dat)
  case Nil
  then show ?case by simp
next
  case (Cons x dat)
  obtain k d where x: "x = (k, d)" by (cases x)
  from Cons.prems have d: "\<forall>(b, v)\<in>set (datum_results d). \<forall>l. v \<noteq> ResultObject l"
    and rest: "bare_losses dat"
    unfolding x bare_losses_def by auto
  show ?case
  proof (cases "map_of (datum_results d) mb")
    case None
    with Cons.IH[OF rest] show ?thesis unfolding x by simp
  next
    case (Some v)
    from map_of_SomeD[OF Some] d have "\<forall>l. v \<noteq> ResultObject l" by blast
    with Some Cons.IH[OF rest] show ?thesis
      unfolding x by (cases v) simp_all
  qed
qed

lemma loaded_history_has_no_incumbent:
  assumes "logged_results_to_runhistory cfgs ress = Inr rh"
  shows "get_incumbent_id rh = Inl AttributeError \<or> get_incumbent_id rh = Inr None"
proof -
  let ?data0 = "fold (\<lambda>c d. AList.update (ConfigId c) new_Datum d) cfgs []"
  from assms obtain dat bs tref cfg where
    lr: "load_results ress (?data0, [], None) = Inr (dat, bs, tref)"
    and rh: "rh = new_RunHistory [dat] cfg"
    by (auto simp: logged_results_to_runhistory_def Let_def split: sum.splits if_splits option.splits)
  have "bare_losses ?data0"
    by (rule bare_losses_configs) (simp add: bare_losses_def)
  from bare_losses_merge[OF bare_losses_load_results[OF lr this], of "time_ref cfg"]
  have "bare_losses (rh_data rh)"
    by (simp add: rh new_RunHistory_def)
  from incumbent_candidates_bare[OF this, of "max_budget (HB_config rh)"]
  show ?thesis
    by (auto simp: get_incumbent_id_def)
qed

subsection \<open>The incumbent\<close>

text \<open>
  C5 fails on the code for a history loaded from the logs. The loader stores the bare
  loss read from the results log; \<open>get_incumbent_id\<close> reads \<open>res.loss\<close> of it, which
  raises \<open>AttributeError\<close>, and only \<open>KeyError\<close> is caught. Here the claim's answer
  would be the id \<open>(0, 1, 0)\<close>, the only candidate with a result at the maximum budget.
\<close>

theorem incumbent_id_raises_on_loaded_history:
  "logged_results_to_runhistory [(0, 0, 0), (0, 1, 0)] plain_log = Inr plain_history
   \<and> max_budget (HB_config plain_history) = 3
   \<and> map_of (datum_results (the (map_of (rh_data plain_history) (CandidateId 0 1 0)))) 3
       = Some (LossValue (1/10))
   \<and> get_incumbent_id plain_history = Inl AttributeError"
  using plain_history_loaded
  by (simp add: get_incumbent_id_def plain_history_def)


subsection \<open>The incumbent trajectory\<close>

lemma tie_runs:
  "get_all_runs tie_history False
     = Inr [\<lparr>run_config_id = CandidateId 0 0 0, run_budget = 1, run_loss = Some (1/2),
             run_time_stamps = ts 0 0 1, run_error_logs = None\<rparr>,
            \<lparr>run_config_id = CandidateId 0 1 0, run_budget = 1, run_loss = Some (1/2),
             run_time_stamps = ts 0 1 2, run_error_logs = None\<rparr>]"
  by (simp add: get_all_runs_def get_runs_by_id_def tie_history_def)

lemma tie_trajectory:
  "get_incumbent_trajectory tie_history True True True
     = Inr \<lparr>config_ids = [CandidateId 0 0 0], times_finished = [1], traj_budgets = [1],
            traj_losses = [1/2]\<rparr>"
proof -
  have cfg: "min_budget (HB_config tie_history) = 1" "max_budget (HB_config tie_history) = 1"
    by (simp_all add: tie_history_def)
  show ?thesis
    by (simp add: get_incumbent_trajectory_def tie_runs cfg Let_def ts_def append_point_def
          differs_def)
qed

text \<open>
  C6 fails on the code when the last run scanned has the loss of the final incumbent.
  The closing test \<open>current_incumbent != r.loss\<close> compares losses, not runs: here the
  first run is accepted, the second (equal loss, same budget) is not, and no point is
  appended for the last finish time 2.
\<close>

theorem trajectory_tie_not_extended:
  "logged_results_to_runhistory [(0, 0, 0), (0, 1, 0)] tie_log = Inr tie_history
   \<and> get_all_runs tie_history False
     = Inr [\<lparr>run_config_id = CandidateId 0 0 0, run_budget = 1, run_loss = Some (1/2),
             run_time_stamps = ts 0 0 1, run_error_logs = None\<rparr>,
            \<lparr>run_config_id = CandidateId 0 1 0, run_budget = 1, run_loss = Some (1/2),
             run_time_stamps = ts 0 1 2, run_error_logs = None\<rparr>]
   \<and> get_incumbent_trajectory tie_history True True True
     = Inr \<lparr>config_ids = [CandidateId 0 0 0], times_finished = [1], traj_budgets = [1],
            traj_losses = [1/2]\<rparr>"
  using tie_history_loaded tie_runs tie_trajectory by simp

end
